theory Spec2Isabelle
  imports Complex_Main
begin

section \<open>Conventions of the embedding\<close>

text \<open>
  The two benchmark programs (the triad \<^verbatim>\<open>nstream-dpct.cc\<close> and the stencil
  \<^verbatim>\<open>stencil-dpcpp.cc\<close> with the kernels of \<^verbatim>\<open>stencil_vector.hpp\<close>) are
  embedded as follows.
  \<^item> A \<^verbatim>\<open>double\<close> is a \<^typ>\<open>real\<close>: every decimal literal of the source stands for
    its exact decimal value and every operation is exact. Rounding of IEEE-754 arithmetic
    is not part of the model.
  \<^item> A buffer (\<^verbatim>\<open>std::vector<double>\<close>, a device or host pointer with its extent)
    is a \<^typ>\<open>real list\<close>, indexed row-major by \<^verbatim>\<open>i*n+j\<close>.
  \<^item> An \<^verbatim>\<open>int\<close> loop counter or dimension is an \<^typ>\<open>int\<close>; the range of the
    32-bit type is not modelled for them. Where the source converts to an unsigned type
    and the conversion matters (\<^verbatim>\<open>size_t\<close> in the stencil driver's argument checks,
    the \<^verbatim>\<open>unsigned int\<close> index of the grid-strided triad kernel) the wrap-around is
    written out with \<open>mod\<close>.
  \<^item> A loop that the source can fail to leave returns an \<^typ>\<open>'a option\<close>, with
    \<^term>\<open>None\<close> for not returning.
\<close>

section \<open>Stencil kernels (\<^verbatim>\<open>stencil_vector.hpp\<close>)\<close>

subsection \<open>Loop nests\<close>

text \<open>\<^verbatim>\<open>for (auto i=lo; i<hi; ++i) body\<close> on a state \<open>s\<close>.\<close>

function for_range :: "int \<Rightarrow> int \<Rightarrow> (int \<Rightarrow> 's \<Rightarrow> 's) \<Rightarrow> 's \<Rightarrow> 's" where
  "for_range lo hi body s = (if lo < hi then for_range (lo + 1) hi body (body lo s) else s)"
  by pat_completeness auto
termination
  by (relation "measure (\<lambda>(lo, hi, body, s). nat (hi - lo))") auto

declare for_range.simps [simp del]

text \<open>
  \<^verbatim>\<open>for (auto it=lo; it<hi; it+=t) body\<close>: the tile loop. With a tile size \<open>t \<le> 0\<close>
  the source never leaves the loop once it is entered, so the loop is a partial function.
\<close>

partial_function (option) for_tiles ::
  "int \<Rightarrow> int \<Rightarrow> int \<Rightarrow> (int \<Rightarrow> 's \<Rightarrow> 's option) \<Rightarrow> 's \<Rightarrow> 's option" where
  "for_tiles lo hi t body s =
     (if lo < hi then Option.bind (body lo s) (for_tiles (lo + t) hi t body) else Some s)"

declare for_tiles.simps [code]

text \<open>
  The loop nest shared by the ten kernels \<^verbatim>\<open>star1\<close> .. \<^verbatim>\<open>grid5\<close>; they differ in
  the radius \<open>r\<close> of the bounds and in the expression added to \<^verbatim>\<open>out[i*n+j]\<close>:
  \<^verbatim>\<open>
  for (auto it=r; it<n-r; it+=t)
    for (auto jt=r; jt<n-r; jt+=t)
      for (auto i=it; i<std::min(n-r,it+t); ++i)
        for (auto j=jt; j<std::min(n-r,jt+t); ++j)
          out[i*n+j] += <point n in i j>;
  \<close>
\<close>

definition stencil_sweep ::
  "int \<Rightarrow> (int \<Rightarrow> real list \<Rightarrow> int \<Rightarrow> int \<Rightarrow> real) \<Rightarrow>
     int \<Rightarrow> int \<Rightarrow> real list \<Rightarrow> real list \<Rightarrow> real list option" where
  "stencil_sweep r point n t inp out =
     for_tiles r (n - r) t (\<lambda>it.
       for_tiles r (n - r) t (\<lambda>jt out.
         Some (for_range it (min (n - r) (it + t)) (\<lambda>i.
                 for_range jt (min (n - r) (jt + t)) (\<lambda>j out.
                   out[nat (i*n+j) := out ! nat (i*n+j) + point n inp i j])) out))) out"

subsection \<open>The right-hand sides of the ten kernels, as written in the source\<close>

definition star1_point :: "int \<Rightarrow> real list \<Rightarrow> int \<Rightarrow> int \<Rightarrow> real" where
  "star1_point n inp i j =
      inp ! nat ((i)*n+(j-1)) * (- 0.5)
    + inp ! nat ((i-1)*n+(j)) * (- 0.5)
    + inp ! nat ((i+1)*n+(j)) * 0.5
    + inp ! nat ((i)*n+(j+1)) * 0.5"

definition star2_point :: "int \<Rightarrow> real list \<Rightarrow> int \<Rightarrow> int \<Rightarrow> real" where
  "star2_point n inp i j =
      inp ! nat ((i)*n+(j-2)) * (- 0.125)
    + inp ! nat ((i)*n+(j-1)) * (- 0.25)
    + inp ! nat ((i-2)*n+(j)) * (- 0.125)
    + inp ! nat ((i-1)*n+(j)) * (- 0.25)
    + inp ! nat ((i+1)*n+(j)) * 0.25
    + inp ! nat ((i+2)*n+(j)) * 0.125
    + inp ! nat ((i)*n+(j+1)) * 0.25
    + inp ! nat ((i)*n+(j+2)) * 0.125"

definition star3_point :: "int \<Rightarrow> real list \<Rightarrow> int \<Rightarrow> int \<Rightarrow> real" where
  "star3_point n inp i j =
      inp ! nat ((i)*n+(j-3)) * (- 0.0555555555556)
    + inp ! nat ((i)*n+(j-2)) * (- 0.0833333333333)
    + inp ! nat ((i)*n+(j-1)) * (- 0.166666666667)
    + inp ! nat ((i-3)*n+(j)) * (- 0.0555555555556)
    + inp ! nat ((i-2)*n+(j)) * (- 0.0833333333333)
    + inp ! nat ((i-1)*n+(j)) * (- 0.166666666667)
    + inp ! nat ((i+1)*n+(j)) * 0.166666666667
    + inp ! nat ((i+2)*n+(j)) * 0.0833333333333
    + inp ! nat ((i+3)*n+(j)) * 0.0555555555556
    + inp ! nat ((i)*n+(j+1)) * 0.166666666667
    + inp ! nat ((i)*n+(j+2)) * 0.0833333333333
    + inp ! nat ((i)*n+(j+3)) * 0.0555555555556"

definition star4_point :: "int \<Rightarrow> real list \<Rightarrow> int \<Rightarrow> int \<Rightarrow> real" where
  "star4_point n inp i j =
      inp ! nat ((i)*n+(j-4)) * (- 0.03125)
    + inp ! nat ((i)*n+(j-3)) * (- 0.0416666666667)
    + inp ! nat ((i)*n+(j-2)) * (- 0.0625)
    + inp ! nat ((i)*n+(j-1)) * (- 0.125)
    + inp ! nat ((i-4)*n+(j)) * (- 0.03125)
    + inp ! nat ((i-3)*n+(j)) * (- 0.0416666666667)
    + inp ! nat ((i-2)*n+(j)) * (- 0.0625)
    + inp ! nat ((i-1)*n+(j)) * (- 0.125)
    + inp ! nat ((i+1)*n+(j)) * 0.125
    + inp ! nat ((i+2)*n+(j)) * 0.0625
    + inp ! nat ((i+3)*n+(j)) * 0.0416666666667
    + inp ! nat ((i+4)*n+(j)) * 0.03125
    + inp ! nat ((i)*n+(j+1)) * 0.125
    + inp ! nat ((i)*n+(j+2)) * 0.0625
    + inp ! nat ((i)*n+(j+3)) * 0.0416666666667
    + inp ! nat ((i)*n+(j+4)) * 0.03125"

definition star5_point :: "int \<Rightarrow> real list \<Rightarrow> int \<Rightarrow> int \<Rightarrow> real" where
  "star5_point n inp i j =
      inp ! nat ((i)*n+(j-5)) * (- 0.02)
    + inp ! nat ((i)*n+(j-4)) * (- 0.025)
    + inp ! nat ((i)*n+(j-3)) * (- 0.0333333333333)
    + inp ! nat ((i)*n+(j-2)) * (- 0.05)
    + inp ! nat ((i)*n+(j-1)) * (- 0.1)
    + inp ! nat ((i-5)*n+(j)) * (- 0.02)
    + inp ! nat ((i-4)*n+(j)) * (- 0.025)
    + inp ! nat ((i-3)*n+(j)) * (- 0.0333333333333)
    + inp ! nat ((i-2)*n+(j)) * (- 0.05)
    + inp ! nat ((i-1)*n+(j)) * (- 0.1)
    + inp ! nat ((i+1)*n+(j)) * 0.1
    + inp ! nat ((i+2)*n+(j)) * 0.05
    + inp ! nat ((i+3)*n+(j)) * 0.0333333333333
    + inp ! nat ((i+4)*n+(j)) * 0.025
    + inp ! nat ((i+5)*n+(j)) * 0.02
    + inp ! nat ((i)*n+(j+1)) * 0.1
    + inp ! nat ((i)*n+(j+2)) * 0.05
    + inp ! nat ((i)*n+(j+3)) * 0.0333333333333
    + inp ! nat ((i)*n+(j+4)) * 0.025
    + inp ! nat ((i)*n+(j+5)) * 0.02"

definition grid1_point :: "int \<Rightarrow> real list \<Rightarrow> int \<Rightarrow> int \<Rightarrow> real" where
  "grid1_point n inp i j =
      inp ! nat ((i-1)*n+(j-1)) * (- 0.25)
    + inp ! nat ((i)*n+(j-1)) * (- 0.25)
    + inp ! nat ((i-1)*n+(j)) * (- 0.25)
    + inp ! nat ((i+1)*n+(j)) * 0.25
    + inp ! nat ((i)*n+(j+1)) * 0.25
    + inp ! nat ((i+1)*n+(j+1)) * 0.25"

definition grid2_point :: "int \<Rightarrow> real list \<Rightarrow> int \<Rightarrow> int \<Rightarrow> real" where
  "grid2_point n inp i j =
      inp ! nat ((i-2)*n+(j-2)) * (- 0.0625)
    + inp ! nat ((i-1)*n+(j-2)) * (- 0.0208333333333)
    + inp ! nat ((i)*n+(j-2)) * (- 0.0208333333333)
    + inp ! nat ((i+1)*n+(j-2)) * (- 0.0208333333333)
    + inp ! nat ((i-2)*n+(j-1)) * (- 0.0208333333333)
    + inp ! nat ((i-1)*n+(j-1)) * (- 0.125)
    + inp ! nat ((i)*n+(j-1)) * (- 0.125)
    + inp ! nat ((i+2)*n+(j-1)) * 0.0208333333333
    + inp ! nat ((i-2)*n+(j)) * (- 0.0208333333333)
    + inp ! nat ((i-1)*n+(j)) * (- 0.125)
    + inp ! nat ((i+1)*n+(j)) * 0.125
    + inp ! nat ((i+2)*n+(j)) * 0.0208333333333
    + inp ! nat ((i-2)*n+(j+1)) * (- 0.0208333333333)
    + inp ! nat ((i)*n+(j+1)) * 0.125
    + inp ! nat ((i+1)*n+(j+1)) * 0.125
    + inp ! nat ((i+2)*n+(j+1)) * 0.0208333333333
    + inp ! nat ((i-1)*n+(j+2)) * 0.0208333333333
    + inp ! nat ((i)*n+(j+2)) * 0.0208333333333
    + inp ! nat ((i+1)*n+(j+2)) * 0.0208333333333
    + inp ! nat ((i+2)*n+(j+2)) * 0.0625"

definition grid3_point :: "int \<Rightarrow> real list \<Rightarrow> int \<Rightarrow> int \<Rightarrow> real" where
  "grid3_point n inp i j =
      inp ! nat ((i-3)*n+(j-3)) * (- 0.0277777777778)
    + inp ! nat ((i-2)*n+(j-3)) * (- 0.00555555555556)
    + inp ! nat ((i-1)*n+(j-3)) * (- 0.00555555555556)
    + inp ! nat ((i)*n+(j-3)) * (- 0.00555555555556)
    + inp ! nat ((i+1)*n+(j-3)) * (- 0.00555555555556)
    + inp ! nat ((i+2)*n+(j-3)) * (- 0.00555555555556)
    + inp ! nat ((i-3)*n+(j-2)) * (- 0.00555555555556)
    + inp ! nat ((i-2)*n+(j-2)) * (- 0.0416666666667)
    + inp ! nat ((i-1)*n+(j-2)) * (- 0.0138888888889)
    + inp ! nat ((i)*n+(j-2)) * (- 0.0138888888889)
    + inp ! nat ((i+1)*n+(j-2)) * (- 0.0138888888889)
    + inp ! nat ((i+3)*n+(j-2)) * 0.00555555555556
    + inp ! nat ((i-3)*n+(j-1)) * (- 0.00555555555556)
    + inp ! nat ((i-2)*n+(j-1)) * (- 0.0138888888889)
    + inp ! nat ((i-1)*n+(j-1)) * (- 0.0833333333333)
    + inp ! nat ((i)*n+(j-1)) * (- 0.0833333333333)
    + inp ! nat ((i+2)*n+(j-1)) * 0.0138888888889
    + inp ! nat ((i+3)*n+(j-1)) * 0.00555555555556
    + inp ! nat ((i-3)*n+(j)) * (- 0.00555555555556)
    + inp ! nat ((i-2)*n+(j)) * (- 0.0138888888889)
    + inp ! nat ((i-1)*n+(j)) * (- 0.0833333333333)
    + inp ! nat ((i+1)*n+(j)) * 0.0833333333333
    + inp ! nat ((i+2)*n+(j)) * 0.0138888888889
    + inp ! nat ((i+3)*n+(j)) * 0.00555555555556
    + inp ! nat ((i-3)*n+(j+1)) * (- 0.00555555555556)
    + inp ! nat ((i-2)*n+(j+1)) * (- 0.0138888888889)
    + inp ! nat ((i)*n+(j+1)) * 0.0833333333333
    + inp ! nat ((i+1)*n+(j+1)) * 0.0833333333333
    + inp ! nat ((i+2)*n+(j+1)) * 0.0138888888889
    + inp ! nat ((i+3)*n+(j+1)) * 0.00555555555556
    + inp ! nat ((i-3)*n+(j+2)) * (- 0.00555555555556)
    + inp ! nat ((i-1)*n+(j+2)) * 0.0138888888889
    + inp ! nat ((i)*n+(j+2)) * 0.0138888888889
    + inp ! nat ((i+1)*n+(j+2)) * 0.0138888888889
    + inp ! nat ((i+2)*n+(j+2)) * 0.0416666666667
    + inp ! nat ((i+3)*n+(j+2)) * 0.00555555555556
    + inp ! nat ((i-2)*n+(j+3)) * 0.00555555555556
    + inp ! nat ((i-1)*n+(j+3)) * 0.00555555555556
    + inp ! nat ((i)*n+(j+3)) * 0.00555555555556
    + inp ! nat ((i+1)*n+(j+3)) * 0.00555555555556
    + inp ! nat ((i+2)*n+(j+3)) * 0.00555555555556
    + inp ! nat ((i+3)*n+(j+3)) * 0.0277777777778"

definition grid4_point :: "int \<Rightarrow> real list \<Rightarrow> int \<Rightarrow> int \<Rightarrow> real" where
  "grid4_point n inp i j =
      inp ! nat ((i-4)*n+(j-4)) * (- 0.015625)
    + inp ! nat ((i-3)*n+(j-4)) * (- 0.00223214285714)
    + inp ! nat ((i-2)*n+(j-4)) * (- 0.00223214285714)
    + inp ! nat ((i-1)*n+(j-4)) * (- 0.00223214285714)
    + inp ! nat ((i)*n+(j-4)) * (- 0.00223214285714)
    + inp ! nat ((i+1)*n+(j-4)) * (- 0.00223214285714)
    + inp ! nat ((i+2)*n+(j-4)) * (- 0.00223214285714)
    + inp ! nat ((i+3)*n+(j-4)) * (- 0.00223214285714)
    + inp ! nat ((i-4)*n+(j-3)) * (- 0.00223214285714)
    + inp ! nat ((i-3)*n+(j-3)) * (- 0.0208333333333)
    + inp ! nat ((i-2)*n+(j-3)) * (- 0.00416666666667)
    + inp ! nat ((i-1)*n+(j-3)) * (- 0.00416666666667)
    + inp ! nat ((i)*n+(j-3)) * (- 0.00416666666667)
    + inp ! nat ((i+1)*n+(j-3)) * (- 0.00416666666667)
    + inp ! nat ((i+2)*n+(j-3)) * (- 0.00416666666667)
    + inp ! nat ((i+4)*n+(j-3)) * 0.00223214285714
    + inp ! nat ((i-4)*n+(j-2)) * (- 0.00223214285714)
    + inp ! nat ((i-3)*n+(j-2)) * (- 0.00416666666667)
    + inp ! nat ((i-2)*n+(j-2)) * (- 0.03125)
    + inp ! nat ((i-1)*n+(j-2)) * (- 0.0104166666667)
    + inp ! nat ((i)*n+(j-2)) * (- 0.0104166666667)
    + inp ! nat ((i+1)*n+(j-2)) * (- 0.0104166666667)
    + inp ! nat ((i+3)*n+(j-2)) * 0.00416666666667
    + inp ! nat ((i+4)*n+(j-2)) * 0.00223214285714
    + inp ! nat ((i-4)*n+(j-1)) * (- 0.00223214285714)
    + inp ! nat ((i-3)*n+(j-1)) * (- 0.00416666666667)
    + inp ! nat ((i-2)*n+(j-1)) * (- 0.0104166666667)
    + inp ! nat ((i-1)*n+(j-1)) * (- 0.0625)
    + inp ! nat ((i)*n+(j-1)) * (- 0.0625)
    + inp ! nat ((i+2)*n+(j-1)) * 0.0104166666667
    + inp ! nat ((i+3)*n+(j-1)) * 0.00416666666667
    + inp ! nat ((i+4)*n+(j-1)) * 0.00223214285714
    + inp ! nat ((i-4)*n+(j)) * (- 0.00223214285714)
    + inp ! nat ((i-3)*n+(j)) * (- 0.00416666666667)
    + inp ! nat ((i-2)*n+(j)) * (- 0.0104166666667)
    + inp ! nat ((i-1)*n+(j)) * (- 0.0625)
    + inp ! nat ((i+1)*n+(j)) * 0.0625
    + inp ! nat ((i+2)*n+(j)) * 0.0104166666667
    + inp ! nat ((i+3)*n+(j)) * 0.00416666666667
    + inp ! nat ((i+4)*n+(j)) * 0.00223214285714
    + inp ! nat ((i-4)*n+(j+1)) * (- 0.00223214285714)
    + inp ! nat ((i-3)*n+(j+1)) * (- 0.00416666666667)
    + inp ! nat ((i-2)*n+(j+1)) * (- 0.0104166666667)
    + inp ! nat ((i)*n+(j+1)) * 0.0625
    + inp ! nat ((i+1)*n+(j+1)) * 0.0625
    + inp ! nat ((i+2)*n+(j+1)) * 0.0104166666667
    + inp ! nat ((i+3)*n+(j+1)) * 0.00416666666667
    + inp ! nat ((i+4)*n+(j+1)) * 0.00223214285714
    + inp ! nat ((i-4)*n+(j+2)) * (- 0.00223214285714)
    + inp ! nat ((i-3)*n+(j+2)) * (- 0.00416666666667)
    + inp ! nat ((i-1)*n+(j+2)) * 0.0104166666667
    + inp ! nat ((i)*n+(j+2)) * 0.0104166666667
    + inp ! nat ((i+1)*n+(j+2)) * 0.0104166666667
    + inp ! nat ((i+2)*n+(j+2)) * 0.03125
    + inp ! nat ((i+3)*n+(j+2)) * 0.00416666666667
    + inp ! nat ((i+4)*n+(j+2)) * 0.00223214285714
    + inp ! nat ((i-4)*n+(j+3)) * (- 0.00223214285714)
    + inp ! nat ((i-2)*n+(j+3)) * 0.00416666666667
    + inp ! nat ((i-1)*n+(j+3)) * 0.00416666666667
    + inp ! nat ((i)*n+(j+3)) * 0.00416666666667
    + inp ! nat ((i+1)*n+(j+3)) * 0.00416666666667
    + inp ! nat ((i+2)*n+(j+3)) * 0.00416666666667
    + inp ! nat ((i+3)*n+(j+3)) * 0.0208333333333
    + inp ! nat ((i+4)*n+(j+3)) * 0.00223214285714
    + inp ! nat ((i-3)*n+(j+4)) * 0.00223214285714
    + inp ! nat ((i-2)*n+(j+4)) * 0.00223214285714
    + inp ! nat ((i-1)*n+(j+4)) * 0.00223214285714
    + inp ! nat ((i)*n+(j+4)) * 0.00223214285714
    + inp ! nat ((i+1)*n+(j+4)) * 0.00223214285714
    + inp ! nat ((i+2)*n+(j+4)) * 0.00223214285714
    + inp ! nat ((i+3)*n+(j+4)) * 0.00223214285714
    + inp ! nat ((i+4)*n+(j+4)) * 0.015625"

definition grid5_point :: "int \<Rightarrow> real list \<Rightarrow> int \<Rightarrow> int \<Rightarrow> real" where
  "grid5_point n inp i j =
      inp ! nat ((i-5)*n+(j-5)) * (- 0.01)
    + inp ! nat ((i-4)*n+(j-5)) * (- 0.00111111111111)
    + inp ! nat ((i-3)*n+(j-5)) * (- 0.00111111111111)
    + inp ! nat ((i-2)*n+(j-5)) * (- 0.00111111111111)
    + inp ! nat ((i-1)*n+(j-5)) * (- 0.00111111111111)
    + inp ! nat ((i)*n+(j-5)) * (- 0.00111111111111)
    + inp ! nat ((i+1)*n+(j-5)) * (- 0.00111111111111)
    + inp ! nat ((i+2)*n+(j-5)) * (- 0.00111111111111)
    + inp ! nat ((i+3)*n+(j-5)) * (- 0.00111111111111)
    + inp ! nat ((i+4)*n+(j-5)) * (- 0.00111111111111)
    + inp ! nat ((i-5)*n+(j-4)) * (- 0.00111111111111)
    + inp ! nat ((i-4)*n+(j-4)) * (- 0.0125)
    + inp ! nat ((i-3)*n+(j-4)) * (- 0.00178571428571)
    + inp ! nat ((i-2)*n+(j-4)) * (- 0.00178571428571)
    + inp ! nat ((i-1)*n+(j-4)) * (- 0.00178571428571)
    + inp ! nat ((i)*n+(j-4)) * (- 0.00178571428571)
    + inp ! nat ((i+1)*n+(j-4)) * (- 0.00178571428571)
    + inp ! nat ((i+2)*n+(j-4)) * (- 0.00178571428571)
    + inp ! nat ((i+3)*n+(j-4)) * (- 0.00178571428571)
    + inp ! nat ((i+5)*n+(j-4)) * 0.00111111111111
    + inp ! nat ((i-5)*n+(j-3)) * (- 0.00111111111111)
    + inp ! nat ((i-4)*n+(j-3)) * (- 0.00178571428571)
    + inp ! nat ((i-3)*n+(j-3)) * (- 0.0166666666667)
    + inp ! nat ((i-2)*n+(j-3)) * (- 0.00333333333333)
    + inp ! nat ((i-1)*n+(j-3)) * (- 0.00333333333333)
    + inp ! nat ((i)*n+(j-3)) * (- 0.00333333333333)
    + inp ! nat ((i+1)*n+(j-3)) * (- 0.00333333333333)
    + inp ! nat ((i+2)*n+(j-3)) * (- 0.00333333333333)
    + inp ! nat ((i+4)*n+(j-3)) * 0.00178571428571
    + inp ! nat ((i+5)*n+(j-3)) * 0.00111111111111
    + inp ! nat ((i-5)*n+(j-2)) * (- 0.00111111111111)
    + inp ! nat ((i-4)*n+(j-2)) * (- 0.00178571428571)
    + inp ! nat ((i-3)*n+(j-2)) * (- 0.00333333333333)
    + inp ! nat ((i-2)*n+(j-2)) * (- 0.025)
    + inp ! nat ((i-1)*n+(j-2)) * (- 0.00833333333333)
    + inp ! nat ((i)*n+(j-2)) * (- 0.00833333333333)
    + inp ! nat ((i+1)*n+(j-2)) * (- 0.00833333333333)
    + inp ! nat ((i+3)*n+(j-2)) * 0.00333333333333
    + inp ! nat ((i+4)*n+(j-2)) * 0.00178571428571
    + inp ! nat ((i+5)*n+(j-2)) * 0.00111111111111
    + inp ! nat ((i-5)*n+(j-1)) * (- 0.00111111111111)
    + inp ! nat ((i-4)*n+(j-1)) * (- 0.00178571428571)
    + inp ! nat ((i-3)*n+(j-1)) * (- 0.00333333333333)
    + inp ! nat ((i-2)*n+(j-1)) * (- 0.00833333333333)
    + inp ! nat ((i-1)*n+(j-1)) * (- 0.05)
    + inp ! nat ((i)*n+(j-1)) * (- 0.05)
    + inp ! nat ((i+2)*n+(j-1)) * 0.00833333333333
    + inp ! nat ((i+3)*n+(j-1)) * 0.00333333333333
    + inp ! nat ((i+4)*n+(j-1)) * 0.00178571428571
    + inp ! nat ((i+5)*n+(j-1)) * 0.00111111111111
    + inp ! nat ((i-5)*n+(j)) * (- 0.00111111111111)
    + inp ! nat ((i-4)*n+(j)) * (- 0.00178571428571)
    + inp ! nat ((i-3)*n+(j)) * (- 0.00333333333333)
    + inp ! nat ((i-2)*n+(j)) * (- 0.00833333333333)
    + inp ! nat ((i-1)*n+(j)) * (- 0.05)
    + inp ! nat ((i+1)*n+(j)) * 0.05
    + inp ! nat ((i+2)*n+(j)) * 0.00833333333333
    + inp ! nat ((i+3)*n+(j)) * 0.00333333333333
    + inp ! nat ((i+4)*n+(j)) * 0.00178571428571
    + inp ! nat ((i+5)*n+(j)) * 0.00111111111111
    + inp ! nat ((i-5)*n+(j+1)) * (- 0.00111111111111)
    + inp ! nat ((i-4)*n+(j+1)) * (- 0.00178571428571)
    + inp ! nat ((i-3)*n+(j+1)) * (- 0.00333333333333)
    + inp ! nat ((i-2)*n+(j+1)) * (- 0.00833333333333)
    + inp ! nat ((i)*n+(j+1)) * 0.05
    + inp ! nat ((i+1)*n+(j+1)) * 0.05
    + inp ! nat ((i+2)*n+(j+1)) * 0.00833333333333
    + inp ! nat ((i+3)*n+(j+1)) * 0.00333333333333
    + inp ! nat ((i+4)*n+(j+1)) * 0.00178571428571
    + inp ! nat ((i+5)*n+(j+1)) * 0.00111111111111
    + inp ! nat ((i-5)*n+(j+2)) * (- 0.00111111111111)
    + inp ! nat ((i-4)*n+(j+2)) * (- 0.00178571428571)
    + inp ! nat ((i-3)*n+(j+2)) * (- 0.00333333333333)
    + inp ! nat ((i-1)*n+(j+2)) * 0.00833333333333
    + inp ! nat ((i)*n+(j+2)) * 0.00833333333333
    + inp ! nat ((i+1)*n+(j+2)) * 0.00833333333333
    + inp ! nat ((i+2)*n+(j+2)) * 0.025
    + inp ! nat ((i+3)*n+(j+2)) * 0.00333333333333
    + inp ! nat ((i+4)*n+(j+2)) * 0.00178571428571
    + inp ! nat ((i+5)*n+(j+2)) * 0.00111111111111
    + inp ! nat ((i-5)*n+(j+3)) * (- 0.00111111111111)
    + inp ! nat ((i-4)*n+(j+3)) * (- 0.00178571428571)
    + inp ! nat ((i-2)*n+(j+3)) * 0.00333333333333
    + inp ! nat ((i-1)*n+(j+3)) * 0.00333333333333
    + inp ! nat ((i)*n+(j+3)) * 0.00333333333333
    + inp ! nat ((i+1)*n+(j+3)) * 0.00333333333333
    + inp ! nat ((i+2)*n+(j+3)) * 0.00333333333333
    + inp ! nat ((i+3)*n+(j+3)) * 0.0166666666667
    + inp ! nat ((i+4)*n+(j+3)) * 0.00178571428571
    + inp ! nat ((i+5)*n+(j+3)) * 0.00111111111111
    + inp ! nat ((i-5)*n+(j+4)) * (- 0.00111111111111)
    + inp ! nat ((i-3)*n+(j+4)) * 0.00178571428571
    + inp ! nat ((i-2)*n+(j+4)) * 0.00178571428571
    + inp ! nat ((i-1)*n+(j+4)) * 0.00178571428571
    + inp ! nat ((i)*n+(j+4)) * 0.00178571428571
    + inp ! nat ((i+1)*n+(j+4)) * 0.00178571428571
    + inp ! nat ((i+2)*n+(j+4)) * 0.00178571428571
    + inp ! nat ((i+3)*n+(j+4)) * 0.00178571428571
    + inp ! nat ((i+4)*n+(j+4)) * 0.0125
    + inp ! nat ((i+5)*n+(j+4)) * 0.00111111111111
    + inp ! nat ((i-4)*n+(j+5)) * 0.00111111111111
    + inp ! nat ((i-3)*n+(j+5)) * 0.00111111111111
    + inp ! nat ((i-2)*n+(j+5)) * 0.00111111111111
    + inp ! nat ((i-1)*n+(j+5)) * 0.00111111111111
    + inp ! nat ((i)*n+(j+5)) * 0.00111111111111
    + inp ! nat ((i+1)*n+(j+5)) * 0.00111111111111
    + inp ! nat ((i+2)*n+(j+5)) * 0.00111111111111
    + inp ! nat ((i+3)*n+(j+5)) * 0.00111111111111
    + inp ! nat ((i+4)*n+(j+5)) * 0.00111111111111
    + inp ! nat ((i+5)*n+(j+5)) * 0.01"

subsection \<open>The kernels\<close>

definition star1 :: "int \<Rightarrow> int \<Rightarrow> real list \<Rightarrow> real list \<Rightarrow> real list option" where
  "star1 n t inp out = stencil_sweep 1 star1_point n t inp out"

definition star2 :: "int \<Rightarrow> int \<Rightarrow> real list \<Rightarrow> real list \<Rightarrow> real list option" where
  "star2 n t inp out = stencil_sweep 2 star2_point n t inp out"

definition star3 :: "int \<Rightarrow> int \<Rightarrow> real list \<Rightarrow> real list \<Rightarrow> real list option" where
  "star3 n t inp out = stencil_sweep 3 star3_point n t inp out"

definition star4 :: "int \<Rightarrow> int \<Rightarrow> real list \<Rightarrow> real list \<Rightarrow> real list option" where
  "star4 n t inp out = stencil_sweep 4 star4_point n t inp out"

definition star5 :: "int \<Rightarrow> int \<Rightarrow> real list \<Rightarrow> real list \<Rightarrow> real list option" where
  "star5 n t inp out = stencil_sweep 5 star5_point n t inp out"

definition grid1 :: "int \<Rightarrow> int \<Rightarrow> real list \<Rightarrow> real list \<Rightarrow> real list option" where
  "grid1 n t inp out = stencil_sweep 1 grid1_point n t inp out"

definition grid2 :: "int \<Rightarrow> int \<Rightarrow> real list \<Rightarrow> real list \<Rightarrow> real list option" where
  "grid2 n t inp out = stencil_sweep 2 grid2_point n t inp out"

definition grid3 :: "int \<Rightarrow> int \<Rightarrow> real list \<Rightarrow> real list \<Rightarrow> real list option" where
  "grid3 n t inp out = stencil_sweep 3 grid3_point n t inp out"

definition grid4 :: "int \<Rightarrow> int \<Rightarrow> real list \<Rightarrow> real list \<Rightarrow> real list option" where
  "grid4 n t inp out = stencil_sweep 4 grid4_point n t inp out"

definition grid5 :: "int \<Rightarrow> int \<Rightarrow> real list \<Rightarrow> real list \<Rightarrow> real list option" where
  "grid5 n t inp out = stencil_sweep 5 grid5_point n t inp out"

subsection \<open>Weight tables\<close>

text \<open>
  The weight table of a kernel lists, in the order of the source, one row
  \<open>(di, dj, w)\<close> for each term \<^verbatim>\<open>in[(i+di)*n+(j+dj)] * w\<close> of its right-hand side.
  \<open>apply_weights\<close> is the weighted sum a table stands for; the lemmas \<open>star1_table\<close> ..
  \<open>grid5_table\<close> below prove that each table is the one of its kernel.
\<close>

definition apply_weights ::
  "(int \<times> int \<times> real) list \<Rightarrow> int \<Rightarrow> real list \<Rightarrow> int \<Rightarrow> int \<Rightarrow> real" where
  "apply_weights tbl n inp i j =
     (\<Sum>(di, dj, w) \<leftarrow> tbl. inp ! nat ((i + di) * n + (j + dj)) * w)"

definition star1_weights :: "(int \<times> int \<times> real) list" where
  "star1_weights =
    [(0, - 1, - 0.5), (- 1, 0, - 0.5), (1, 0, 0.5),
     (0, 1, 0.5)]"

definition star2_weights :: "(int \<times> int \<times> real) list" where
  "star2_weights =
    [(0, - 2, - 0.125), (0, - 1, - 0.25), (- 2, 0, - 0.125),
     (- 1, 0, - 0.25), (1, 0, 0.25), (2, 0, 0.125),
     (0, 1, 0.25), (0, 2, 0.125)]"

definition star3_weights :: "(int \<times> int \<times> real) list" where
  "star3_weights =
    [(0, - 3, - 0.0555555555556), (0, - 2, - 0.0833333333333), (0, - 1, - 0.166666666667),
     (- 3, 0, - 0.0555555555556), (- 2, 0, - 0.0833333333333), (- 1, 0, - 0.166666666667),
     (1, 0, 0.166666666667), (2, 0, 0.0833333333333), (3, 0, 0.0555555555556),
     (0, 1, 0.166666666667), (0, 2, 0.0833333333333), (0, 3, 0.0555555555556)]"

definition star4_weights :: "(int \<times> int \<times> real) list" where
  "star4_weights =
    [(0, - 4, - 0.03125), (0, - 3, - 0.0416666666667), (0, - 2, - 0.0625),
     (0, - 1, - 0.125), (- 4, 0, - 0.03125), (- 3, 0, - 0.0416666666667),
     (- 2, 0, - 0.0625), (- 1, 0, - 0.125), (1, 0, 0.125),
     (2, 0, 0.0625), (3, 0, 0.0416666666667), (4, 0, 0.03125),
     (0, 1, 0.125), (0, 2, 0.0625), (0, 3, 0.0416666666667),
     (0, 4, 0.03125)]"

definition star5_weights :: "(int \<times> int \<times> real) list" where
  "star5_weights =
    [(0, - 5, - 0.02), (0, - 4, - 0.025), (0, - 3, - 0.0333333333333),
     (0, - 2, - 0.05), (0, - 1, - 0.1), (- 5, 0, - 0.02),
     (- 4, 0, - 0.025), (- 3, 0, - 0.0333333333333), (- 2, 0, - 0.05),
     (- 1, 0, - 0.1), (1, 0, 0.1), (2, 0, 0.05),
     (3, 0, 0.0333333333333), (4, 0, 0.025), (5, 0, 0.02),
     (0, 1, 0.1), (0, 2, 0.05), (0, 3, 0.0333333333333),
     (0, 4, 0.025), (0, 5, 0.02)]"

definition grid1_weights :: "(int \<times> int \<times> real) list" where
  "grid1_weights =
    [(- 1, - 1, - 0.25), (0, - 1, - 0.25), (- 1, 0, - 0.25),
     (1, 0, 0.25), (0, 1, 0.25), (1, 1, 0.25)]"

definition grid2_weights :: "(int \<times> int \<times> real) list" where
  "grid2_weights =
    [(- 2, - 2, - 0.0625), (- 1, - 2, - 0.0208333333333), (0, - 2, - 0.0208333333333),
     (1, - 2, - 0.0208333333333), (- 2, - 1, - 0.0208333333333), (- 1, - 1, - 0.125),
     (0, - 1, - 0.125), (2, - 1, 0.0208333333333), (- 2, 0, - 0.0208333333333),
     (- 1, 0, - 0.125), (1, 0, 0.125), (2, 0, 0.0208333333333),
     (- 2, 1, - 0.0208333333333), (0, 1, 0.125), (1, 1, 0.125),
     (2, 1, 0.0208333333333), (- 1, 2, 0.0208333333333), (0, 2, 0.0208333333333),
     (1, 2, 0.0208333333333), (2, 2, 0.0625)]"

definition grid3_weights :: "(int \<times> int \<times> real) list" where
  "grid3_weights =
    [(- 3, - 3, - 0.0277777777778), (- 2, - 3, - 0.00555555555556), (- 1, - 3, - 0.00555555555556),
     (0, - 3, - 0.00555555555556), (1, - 3, - 0.00555555555556), (2, - 3, - 0.00555555555556),
     (- 3, - 2, - 0.00555555555556), (- 2, - 2, - 0.0416666666667), (- 1, - 2, - 0.0138888888889),
     (0, - 2, - 0.0138888888889), (1, - 2, - 0.0138888888889), (3, - 2, 0.00555555555556),
     (- 3, - 1, - 0.00555555555556), (- 2, - 1, - 0.0138888888889), (- 1, - 1, - 0.0833333333333),
     (0, - 1, - 0.0833333333333), (2, - 1, 0.0138888888889), (3, - 1, 0.00555555555556),
     (- 3, 0, - 0.00555555555556), (- 2, 0, - 0.0138888888889), (- 1, 0, - 0.0833333333333),
     (1, 0, 0.0833333333333), (2, 0, 0.0138888888889), (3, 0, 0.00555555555556),
     (- 3, 1, - 0.00555555555556), (- 2, 1, - 0.0138888888889), (0, 1, 0.0833333333333),
     (1, 1, 0.0833333333333), (2, 1, 0.0138888888889), (3, 1, 0.00555555555556),
     (- 3, 2, - 0.00555555555556), (- 1, 2, 0.0138888888889), (0, 2, 0.0138888888889),
     (1, 2, 0.0138888888889), (2, 2, 0.0416666666667), (3, 2, 0.00555555555556),
     (- 2, 3, 0.00555555555556), (- 1, 3, 0.00555555555556), (0, 3, 0.00555555555556),
     (1, 3, 0.00555555555556), (2, 3, 0.00555555555556), (3, 3, 0.0277777777778)]"

definition grid4_weights :: "(int \<times> int \<times> real) list" where
  "grid4_weights =
    [(- 4, - 4, - 0.015625), (- 3, - 4, - 0.00223214285714), (- 2, - 4, - 0.00223214285714),
     (- 1, - 4, - 0.00223214285714), (0, - 4, - 0.00223214285714), (1, - 4, - 0.00223214285714),
     (2, - 4, - 0.00223214285714), (3, - 4, - 0.00223214285714), (- 4, - 3, - 0.00223214285714),
     (- 3, - 3, - 0.0208333333333), (- 2, - 3, - 0.00416666666667), (- 1, - 3, - 0.00416666666667),
     (0, - 3, - 0.00416666666667), (1, - 3, - 0.00416666666667), (2, - 3, - 0.00416666666667),
     (4, - 3, 0.00223214285714), (- 4, - 2, - 0.00223214285714), (- 3, - 2, - 0.00416666666667),
     (- 2, - 2, - 0.03125), (- 1, - 2, - 0.0104166666667), (0, - 2, - 0.0104166666667),
     (1, - 2, - 0.0104166666667), (3, - 2, 0.00416666666667), (4, - 2, 0.00223214285714),
     (- 4, - 1, - 0.00223214285714), (- 3, - 1, - 0.00416666666667), (- 2, - 1, - 0.0104166666667),
     (- 1, - 1, - 0.0625), (0, - 1, - 0.0625), (2, - 1, 0.0104166666667),
     (3, - 1, 0.00416666666667), (4, - 1, 0.00223214285714), (- 4, 0, - 0.00223214285714),
     (- 3, 0, - 0.00416666666667), (- 2, 0, - 0.0104166666667), (- 1, 0, - 0.0625),
     (1, 0, 0.0625), (2, 0, 0.0104166666667), (3, 0, 0.00416666666667),
     (4, 0, 0.00223214285714), (- 4, 1, - 0.00223214285714), (- 3, 1, - 0.00416666666667),
     (- 2, 1, - 0.0104166666667), (0, 1, 0.0625), (1, 1, 0.0625),
     (2, 1, 0.0104166666667), (3, 1, 0.00416666666667), (4, 1, 0.00223214285714),
     (- 4, 2, - 0.00223214285714), (- 3, 2, - 0.00416666666667), (- 1, 2, 0.0104166666667),
     (0, 2, 0.0104166666667), (1, 2, 0.0104166666667), (2, 2, 0.03125),
     (3, 2, 0.00416666666667), (4, 2, 0.00223214285714), (- 4, 3, - 0.00223214285714),
     (- 2, 3, 0.00416666666667), (- 1, 3, 0.00416666666667), (0, 3, 0.00416666666667),
     (1, 3, 0.00416666666667), (2, 3, 0.00416666666667), (3, 3, 0.0208333333333),
     (4, 3, 0.00223214285714), (- 3, 4, 0.00223214285714), (- 2, 4, 0.00223214285714),
     (- 1, 4, 0.00223214285714), (0, 4, 0.00223214285714), (1, 4, 0.00223214285714),
     (2, 4, 0.00223214285714), (3, 4, 0.00223214285714), (4, 4, 0.015625)]"

definition grid5_weights :: "(int \<times> int \<times> real) list" where
  "grid5_weights =
    [(- 5, - 5, - 0.01), (- 4, - 5, - 0.00111111111111), (- 3, - 5, - 0.00111111111111),
     (- 2, - 5, - 0.00111111111111), (- 1, - 5, - 0.00111111111111), (0, - 5, - 0.00111111111111),
     (1, - 5, - 0.00111111111111), (2, - 5, - 0.00111111111111), (3, - 5, - 0.00111111111111),
     (4, - 5, - 0.00111111111111), (- 5, - 4, - 0.00111111111111), (- 4, - 4, - 0.0125),
     (- 3, - 4, - 0.00178571428571), (- 2, - 4, - 0.00178571428571), (- 1, - 4, - 0.00178571428571),
     (0, - 4, - 0.00178571428571), (1, - 4, - 0.00178571428571), (2, - 4, - 0.00178571428571),
     (3, - 4, - 0.00178571428571), (5, - 4, 0.00111111111111), (- 5, - 3, - 0.00111111111111),
     (- 4, - 3, - 0.00178571428571), (- 3, - 3, - 0.0166666666667), (- 2, - 3, - 0.00333333333333),
     (- 1, - 3, - 0.00333333333333), (0, - 3, - 0.00333333333333), (1, - 3, - 0.00333333333333),
     (2, - 3, - 0.00333333333333), (4, - 3, 0.00178571428571), (5, - 3, 0.00111111111111),
     (- 5, - 2, - 0.00111111111111), (- 4, - 2, - 0.00178571428571), (- 3, - 2, - 0.00333333333333),
     (- 2, - 2, - 0.025), (- 1, - 2, - 0.00833333333333), (0, - 2, - 0.00833333333333),
     (1, - 2, - 0.00833333333333), (3, - 2, 0.00333333333333), (4, - 2, 0.00178571428571),
     (5, - 2, 0.00111111111111), (- 5, - 1, - 0.00111111111111), (- 4, - 1, - 0.00178571428571),
     (- 3, - 1, - 0.00333333333333), (- 2, - 1, - 0.00833333333333), (- 1, - 1, - 0.05),
     (0, - 1, - 0.05), (2, - 1, 0.00833333333333), (3, - 1, 0.00333333333333),
     (4, - 1, 0.00178571428571), (5, - 1, 0.00111111111111), (- 5, 0, - 0.00111111111111),
     (- 4, 0, - 0.00178571428571), (- 3, 0, - 0.00333333333333), (- 2, 0, - 0.00833333333333),
     (- 1, 0, - 0.05), (1, 0, 0.05), (2, 0, 0.00833333333333),
     (3, 0, 0.00333333333333), (4, 0, 0.00178571428571), (5, 0, 0.00111111111111),
     (- 5, 1, - 0.00111111111111), (- 4, 1, - 0.00178571428571), (- 3, 1, - 0.00333333333333),
     (- 2, 1, - 0.00833333333333), (0, 1, 0.05), (1, 1, 0.05),
     (2, 1, 0.00833333333333), (3, 1, 0.00333333333333), (4, 1, 0.00178571428571),
     (5, 1, 0.00111111111111), (- 5, 2, - 0.00111111111111), (- 4, 2, - 0.00178571428571),
     (- 3, 2, - 0.00333333333333), (- 1, 2, 0.00833333333333), (0, 2, 0.00833333333333),
     (1, 2, 0.00833333333333), (2, 2, 0.025), (3, 2, 0.00333333333333),
     (4, 2, 0.00178571428571), (5, 2, 0.00111111111111), (- 5, 3, - 0.00111111111111),
     (- 4, 3, - 0.00178571428571), (- 2, 3, 0.00333333333333), (- 1, 3, 0.00333333333333),
     (0, 3, 0.00333333333333), (1, 3, 0.00333333333333), (2, 3, 0.00333333333333),
     (3, 3, 0.0166666666667), (4, 3, 0.00178571428571), (5, 3, 0.00111111111111),
     (- 5, 4, - 0.00111111111111), (- 3, 4, 0.00178571428571), (- 2, 4, 0.00178571428571),
     (- 1, 4, 0.00178571428571), (0, 4, 0.00178571428571), (1, 4, 0.00178571428571),
     (2, 4, 0.00178571428571), (3, 4, 0.00178571428571), (4, 4, 0.0125),
     (5, 4, 0.00111111111111), (- 4, 5, 0.00111111111111), (- 3, 5, 0.00111111111111),
     (- 2, 5, 0.00111111111111), (- 1, 5, 0.00111111111111), (0, 5, 0.00111111111111),
     (1, 5, 0.00111111111111), (2, 5, 0.00111111111111), (3, 5, 0.00111111111111),
     (4, 5, 0.00111111111111), (5, 5, 0.01)]"

section \<open>Library and runtime functions the drivers rely on\<close>

text \<open>
  \<^verbatim>\<open>std::atoi\<close>: leading white space is skipped, an optional sign is read, then decimal
  digits up to the first other character; no digits give 0. The result is not bounded to
  the range of \<^verbatim>\<open>int\<close> here (the C function is undefined beyond it).
\<close>

definition is_space :: "char \<Rightarrow> bool" where
  "is_space c = (c \<in> set [CHR '' '', CHR 0x09, CHR 0x0A, CHR 0x0B, CHR 0x0C, CHR 0x0D])"

definition is_digit :: "char \<Rightarrow> bool" where
  "is_digit c = (48 \<le> (of_char c :: nat) \<and> (of_char c :: nat) \<le> 57)"

fun digits_value :: "int \<Rightarrow> string \<Rightarrow> int" where
  "digits_value acc [] = acc"
| "digits_value acc (c # cs) =
     (if is_digit c then digits_value (10 * acc + (of_char c - 48)) cs else acc)"

definition atoi :: "string \<Rightarrow> int" where
  "atoi s =
     (case dropWhile is_space s of
        [] \<Rightarrow> 0
      | c # cs \<Rightarrow>
          if c = CHR ''-'' then - digits_value 0 cs
          else if c = CHR ''+'' then digits_value 0 cs
          else digits_value 0 (c # cs))"

text \<open>
  Conversion to the 64-bit \<^verbatim>\<open>size_t\<close>; a \<^verbatim>\<open>size_t\<close> value is kept as the
  \<^typ>\<open>int\<close> in \<open>{0..<2^64}\<close> it denotes.
\<close>

definition size_t :: "int \<Rightarrow> int" where
  "size_t x = x mod 2 ^ 64"

text \<open>
  \<^verbatim>\<open>h.parallel_for(sycl::range<2>{n,n}, ...)\<close>: one work-item for every \<open>(i, j)\<close> with
  \<open>0 \<le> i, j < n\<close>. Every work-item of the two uses in the stencil driver writes only its
  own cell \<^verbatim>\<open>i*n+j\<close>, so the items are run one after the other, row by row.
\<close>

definition parallel_for2 :: "int \<Rightarrow> (int \<Rightarrow> int \<Rightarrow> 's \<Rightarrow> 's) \<Rightarrow> 's \<Rightarrow> 's" where
  "parallel_for2 n f s = for_range 0 n (\<lambda>i. for_range 0 n (\<lambda>j. f i j)) s"

section \<open>The stencil driver (\<^verbatim>\<open>stencil-dpcpp.cc\<close>)\<close>

subsection \<open>Arguments\<close>

record stencil_config =
  cfg_iterations :: int
  cfg_n :: int
  cfg_tile_size :: int
  cfg_star :: bool
  cfg_radius :: int

text \<open>
  The \<^verbatim>\<open>try\<close> block of \<^verbatim>\<open>main\<close>: \<open>Inl\<close> carries the message thrown (the handler
  prints it and returns 1). \<open>argv\<close> is the argument vector with the program name first, so
  \<^verbatim>\<open>argc\<close> is its length. \<^verbatim>\<open>n\<close>, \<^verbatim>\<open>tile_size\<close> and \<^verbatim>\<open>radius\<close> are
  \<^verbatim>\<open>size_t\<close>. \<^verbatim>\<open>prk::get_max_matrix_size()\<close> is declared in \<^verbatim>\<open>prk_util.h\<close>, which
  is not among the sources; its value is the parameter \<open>max_matrix_size\<close>.
\<close>

definition stencil_args :: "int \<Rightarrow> string list \<Rightarrow> string + stencil_config" where
  "stencil_args max_matrix_size argv =
     (let argc = length argv in
      if argc < 3 then
        Inl ''Usage: <# iterations> <array dimension> [<tile_size> <star/grid> <radius>]''
      else
        let iterations = atoi (argv ! 1) in
        if iterations < 1 then Inl ''ERROR: iterations must be >= 1''
        else
          let n = size_t (atoi (argv ! 2)) in
          if n < 1 then Inl ''ERROR: grid dimension must be positive''
          else if n > max_matrix_size then Inl ''ERROR: grid dimension too large - overflow risk''
          else
            let tile_size =
                  (if argc > 3 then
                     let tile_size = size_t (atoi (argv ! 3));
                         tile_size = (if tile_size \<le> 0 then n else tile_size);
                         tile_size = (if tile_size > n then n else tile_size)
                     in tile_size
                   else 32);
                star =
                  (if argc > 4 then
                     let stencil = argv ! 4; grid = ''grid''
                     in (if stencil = grid then False else True)
                   else True);
                radius = (if argc > 5 then size_t (atoi (argv ! 5)) else 2)
            in
              if radius < 1 \<or> size_t (2 * radius + 1) > n then
                Inl ''ERROR: Stencil radius negative or too large''
              else
                Inr \<lparr>cfg_iterations = iterations, cfg_n = n, cfg_tile_size = tile_size,
                     cfg_star = star, cfg_radius = radius\<rparr>)"

subsection \<open>Kernel selection\<close>

text \<open>
  The function pointer \<^verbatim>\<open>stencil\<close>. It starts as \<^verbatim>\<open>nothing<double>\<close>; the switch over
  the radius replaces it for the star shape only, the switch for the grid shape being
  compiled out (\<^verbatim>\<open>#if 0\<close>).
\<close>

datatype stencil_fn = Fn_nothing | Fn_star1 | Fn_star2 | Fn_star3 | Fn_star4 | Fn_star5

definition select_stencil :: "bool \<Rightarrow> int \<Rightarrow> stencil_fn" where
  "select_stencil star radius =
     (if star then
        (if radius = 1 then Fn_star1
         else if radius = 2 then Fn_star2
         else if radius = 3 then Fn_star3
         else if radius = 4 then Fn_star4
         else if radius = 5 then Fn_star5
         else Fn_nothing)
      else Fn_nothing)"

text \<open>
  A run that does not reach \<^verbatim>\<open>return\<close>: \<open>Abort\<close> with the lines printed before it, a
  kernel that does not return, or (in the triad driver) a \<^verbatim>\<open>std::string\<close> constructed
  from a null pointer, which is undefined behaviour.
\<close>

datatype fault = Abort "string list" | No_return | Null_string

text \<open>
  Modelled from the spec: \<^verbatim>\<open>prk::Abort\<close> (\<^verbatim>\<open>prk_util.h\<close>, not among the sources)
  ends the run at once and fatally ("abort", "a fatal misconfiguration, not a recoverable
  fault"); \<^verbatim>\<open>nothing\<close> prints its three lines and calls it.
\<close>

definition nothing :: "fault + real list" where
  "nothing =
     Inl (Abort [''You are trying to use a stencil that does not exist.'',
                 ''Please generate the new stencil using the code generator'',
                 ''and add it to the case-switch in the driver.''])"

definition returned :: "real list option \<Rightarrow> fault + real list" where
  "returned r = (case r of None \<Rightarrow> Inl No_return | Some out \<Rightarrow> Inr out)"

text \<open>
  The call \<^verbatim>\<open>stencil(q, n, d_in, d_out)\<close>. The driver takes its kernels from
  \<^verbatim>\<open>stencil_sycl.hpp\<close>, which is not among the sources; the kernels of the same names
  in \<^verbatim>\<open>stencil_vector.hpp\<close> stand for them, run with a tile size \<open>t\<close>.
\<close>

definition call_stencil ::
    "stencil_fn \<Rightarrow> int \<Rightarrow> int \<Rightarrow> real list \<Rightarrow> real list \<Rightarrow> fault + real list" where
  "call_stencil stencil n t inp out =
     (case stencil of
        Fn_nothing \<Rightarrow> nothing
      | Fn_star1 \<Rightarrow> returned (star1 n t inp out)
      | Fn_star2 \<Rightarrow> returned (star2 n t inp out)
      | Fn_star3 \<Rightarrow> returned (star3 n t inp out)
      | Fn_star4 \<Rightarrow> returned (star4 n t inp out)
      | Fn_star5 \<Rightarrow> returned (star5 n t inp out))"

subsection \<open>The timed loop\<close>

text \<open>
  The state of a run: the two device buffers, the wall clock, the variable
  \<^verbatim>\<open>stencil_time\<close>, and a log of what the run did, in order. The log is not in the
  source; it records each kernel call, each perturbation and each reading of the clock with
  the value of \<^verbatim>\<open>iter\<close> (the reading after the loop carries no iteration).

  Modelled from the spec: \<^verbatim>\<open>prk::wtime\<close> (\<^verbatim>\<open>prk_util.h\<close>, not among the sources) is
  "a monotonic wall-clock timer returning fractional seconds"; it returns the field
  \<open>clock\<close>, which every loop body advances.
\<close>

datatype event = Kernel_call int | Perturbation int | Timer_start int | Timer_stop

record device =
  d_in :: "real list"
  d_out :: "real list"
  clock :: real
  stencil_time :: real
  events :: "event list"

text \<open>The initialisation of \<^verbatim>\<open>d_in\<close> and \<^verbatim>\<open>d_out\<close>.\<close>

definition initialize :: "int \<Rightarrow> device \<Rightarrow> device" where
  "initialize n s =
     parallel_for2 n (\<lambda>i j s.
       s\<lparr>d_in := (d_in s)[nat (i*n+j) := real_of_int (i+j)],
         d_out := (d_out s)[nat (i*n+j) := 0]\<rparr>) s"

text \<open>\<^verbatim>\<open>d_in[i*n+j] += 1\<close> for every cell.\<close>

definition perturb :: "int \<Rightarrow> device \<Rightarrow> device" where
  "perturb n s =
     parallel_for2 n (\<lambda>i j s.
       s\<lparr>d_in := (d_in s)[nat (i*n+j) := d_in s ! nat (i*n+j) + 1]\<rparr>) s"

text \<open>
  \<^verbatim>\<open>for (int iter = 0; iter<=iterations; iter++)\<close>. The body with counter \<open>iter\<close> takes
  the wall-clock time \<open>body_time iter\<close>, a parameter of the model.
\<close>

function stencil_loop ::
    "stencil_fn \<Rightarrow> int \<Rightarrow> int \<Rightarrow> (int \<Rightarrow> real) \<Rightarrow> int \<Rightarrow> int \<Rightarrow> device \<Rightarrow> fault + device" where
  "stencil_loop stencil n t body_time iterations iter s =
     (if iter \<le> iterations then
        let s = (if iter = 1
                 then s\<lparr>stencil_time := clock s, events := events s @ [Timer_start iter]\<rparr>
                 else s)
        in
          case call_stencil stencil n t (d_in s) (d_out s) of
            Inl e \<Rightarrow> Inl e
          | Inr out \<Rightarrow>
              let s = s\<lparr>d_out := out, events := events s @ [Kernel_call iter]\<rparr>;
                  s = (perturb n s)\<lparr>events := events s @ [Perturbation iter]\<rparr>;
                  s = s\<lparr>clock := clock s + body_time iter\<rparr>
              in stencil_loop stencil n t body_time iterations (iter + 1) s
      else Inr s)"
  by pat_completeness auto
termination
  by (relation "measure (\<lambda>(stencil, n, t, body_time, iterations, iter, s). nat (iterations + 1 - iter))")
     auto

declare stencil_loop.simps [simp del]

text \<open>
  The computation of \<^verbatim>\<open>main\<close> from the allocation of the device buffers to
  \<^verbatim>\<open>stencil_time = prk::wtime() - stencil_time\<close>. \<^verbatim>\<open>malloc_device\<close> gives \<open>n*n\<close> cells
  of unknown content \<open>junk\<close>; \<open>now\<close> is the clock when the loop starts.
\<close>

definition stencil_run ::
    "stencil_fn \<Rightarrow> int \<Rightarrow> int \<Rightarrow> (int \<Rightarrow> real) \<Rightarrow> real \<Rightarrow> (nat \<Rightarrow> real) \<Rightarrow> int \<Rightarrow> fault + device" where
  "stencil_run stencil n t body_time now junk iterations =
     (let s = \<lparr>d_in = map junk [0..<nat (n*n)], d_out = map junk [0..<nat (n*n)],
               clock = now, stencil_time = 0, events = []\<rparr>;
          s = initialize n s
      in case stencil_loop stencil n t body_time iterations 0 s of
           Inl e \<Rightarrow> Inl e
         | Inr s \<Rightarrow>
             Inr (s\<lparr>stencil_time := clock s - stencil_time s, events := events s @ [Timer_stop]\<rparr>))"

subsection \<open>Verification\<close>

text \<open>
  The sum of \<^verbatim>\<open>prk::abs(h_out[i*n+j])\<close> over the interior, divided by
  \<^verbatim>\<open>active_points\<close> (the variable \<^verbatim>\<open>norm\<close> of the source is \<open>l1_norm\<close> here).
  Modelled from the spec: \<^verbatim>\<open>prk::abs\<close> (\<^verbatim>\<open>prk_util.h\<close>, not among the sources) is the
  absolute value ("observed norm = average absolute value of \<open>out\<close> over interior cells").
\<close>

definition interior_norm :: "int \<Rightarrow> int \<Rightarrow> real list \<Rightarrow> real" where
  "interior_norm n radius h_out =
     (let active_points = (n - 2*radius) * (n - 2*radius);
          l1_norm = for_range radius (n - radius) (\<lambda>i.
                      for_range radius (n - radius) (\<lambda>j l1_norm.
                        l1_norm + \<bar>h_out ! nat (i*n+j)\<bar>)) 0
      in l1_norm / real_of_int active_points)"

text \<open>
  How \<^verbatim>\<open>main\<close> ends: with a usage message and status 1, with a failed validation (the
  norm and the reference norm) and status 1, with status 0 and the average time reported,
  or without returning.
\<close>

datatype outcome = Usage_error string | Not_validated real real | Validated real | Fatal fault

fun exit_status :: "outcome \<Rightarrow> int option" where
  "exit_status (Usage_error e) = Some 1"
| "exit_status (Not_validated l1_norm reference_norm) = Some 1"
| "exit_status (Validated avgtime) = Some 0"
| "exit_status (Fatal f) = None"

definition stencil_verify :: "int \<Rightarrow> int \<Rightarrow> int \<Rightarrow> real list \<Rightarrow> real \<Rightarrow> outcome" where
  "stencil_verify iterations n radius h_out elapsed =
     (let l1_norm = interior_norm n radius h_out;
          epsilon = 1 / 10 ^ 8;
          reference_norm = 2 * (real_of_int iterations + 1)
      in if \<bar>l1_norm - reference_norm\<bar> > epsilon then Not_validated l1_norm reference_norm
         else Validated (elapsed / real_of_int iterations))"

definition stencil_main ::
    "int \<Rightarrow> (int \<Rightarrow> real) \<Rightarrow> real \<Rightarrow> (nat \<Rightarrow> real) \<Rightarrow> string list \<Rightarrow> outcome" where
  "stencil_main max_matrix_size body_time now junk argv =
     (case stencil_args max_matrix_size argv of
        Inl e \<Rightarrow> Usage_error e
      | Inr c \<Rightarrow>
          (case stencil_run (select_stencil (cfg_star c) (cfg_radius c)) (cfg_n c)
                  (cfg_tile_size c) body_time now junk (cfg_iterations c) of
             Inl f \<Rightarrow> Fatal f
           | Inr s \<Rightarrow>
               stencil_verify (cfg_iterations c) (cfg_n c) (cfg_radius c)
                 (d_out s) (stencil_time s)))"


section \<open>The triad kernels (\<^verbatim>\<open>nstream-dpct.cc\<close>)\<close>

text \<open>
  The kernels do not depend on what the arithmetic of \<^verbatim>\<open>double\<close> is: their element type
  is any type \<open>'a\<close> with an addition and a multiplication, of which nothing is assumed.
  The driver runs them on \<^typ>\<open>real\<close>.
\<close>

text \<open>Conversion to the 32-bit \<^verbatim>\<open>unsigned int\<close>.\<close>

definition to_unsigned :: "int \<Rightarrow> int" where
  "to_unsigned x = x mod 2 ^ 32"

text \<open>
  What a kernel reads of its \<^verbatim>\<open>sycl::nd_item<3>\<close>, all in dimension 2:
  \<^verbatim>\<open>get_group(2)\<close>, \<^verbatim>\<open>get_local_range().get(2)\<close>, \<^verbatim>\<open>get_local_id(2)\<close> and
  \<^verbatim>\<open>get_group_range(2)\<close> (all \<^verbatim>\<open>size_t\<close>).
\<close>

record nd_item =
  item_group :: int
  item_local_range :: int
  item_local_id :: int
  item_group_range :: int

text \<open>
  \<^verbatim>\<open>nstream\<close>, the direct mapping. \<^verbatim>\<open>A[i] += x\<close> is \<^verbatim>\<open>A[i] = A[i] + x\<close>; \<open>n\<close> is
  \<^verbatim>\<open>unsigned\<close> and \<open>i\<close> is \<^verbatim>\<open>size_t\<close>.
\<close>

definition nstream ::
    "int \<Rightarrow> 'a::{plus,times} \<Rightarrow> 'a list \<Rightarrow> 'a list \<Rightarrow> 'a list \<Rightarrow> nd_item \<Rightarrow> 'a list" where
  "nstream n scalar A B C item_ct1 =
     (let i = size_t (item_group item_ct1 * item_local_range item_ct1 + item_local_id item_ct1)
      in if i < n then A[nat i := A ! nat i + (B ! nat i + scalar * C ! nat i)] else A)"

text \<open>
  \<^verbatim>\<open>nstream2\<close>, the grid-strided mapping. Its index \<open>i\<close> is an \<^verbatim>\<open>unsigned int\<close>: the
  start value and every \<^verbatim>\<open>i += stride\<close> are computed in \<^verbatim>\<open>size_t\<close> and cut to 32
  bits, so the loop need not end.
\<close>

partial_function (option) nstream2_loop ::
    "int \<Rightarrow> 'a::{plus,times} \<Rightarrow> 'a list \<Rightarrow> 'a list \<Rightarrow> int \<Rightarrow> int \<Rightarrow> 'a list \<Rightarrow> 'a list option" where
  "nstream2_loop n scalar B C stride i A =
     (if i < n
      then nstream2_loop n scalar B C stride (to_unsigned (size_t (i + stride)))
             (A[nat i := A ! nat i + (B ! nat i + scalar * C ! nat i)])
      else Some A)"

declare nstream2_loop.simps [code]

definition nstream2 ::
    "int \<Rightarrow> 'a::{plus,times} \<Rightarrow> 'a list \<Rightarrow> 'a list \<Rightarrow> 'a list \<Rightarrow> nd_item \<Rightarrow> 'a list option" where
  "nstream2 n scalar A B C item_ct1 =
     nstream2_loop n scalar B C
       (size_t (item_local_range item_ct1 * item_group_range item_ct1))
       (to_unsigned (size_t (item_group item_ct1 * item_local_range item_ct1 + item_local_id item_ct1)))
       A"

subsection \<open>Kernel launch\<close>

text \<open>
  The work-items of an \<^verbatim>\<open>nd_range\<close> with \<open>groups\<close> work-groups of \<open>local\<close> items in
  dimension 2 (and one in the other two), group by group.
\<close>

definition work_items :: "int \<Rightarrow> int \<Rightarrow> nd_item list" where
  "work_items groups local =
     concat (map (\<lambda>g. map (\<lambda>l. \<lparr>item_group = g, item_local_range = local,
                                   item_local_id = l, item_group_range = groups\<rparr>)
                          [0..local - 1])
                 [0..groups - 1])"

text \<open>
  The work-items of a launch run one at a time in the order of a schedule, each to its
  end; the launch returns when all have returned. (No two work-items of these kernels
  touch the same element, so interleavings inside the kernel body are not modelled.)
\<close>

fun run_items :: "(nd_item \<Rightarrow> 'm \<Rightarrow> 'm option) \<Rightarrow> nd_item list \<Rightarrow> 'm \<Rightarrow> 'm option" where
  "run_items body [] m = Some m"
| "run_items body (item # items) m = Option.bind (body item m) (run_items body items)"

section \<open>The triad driver (\<^verbatim>\<open>nstream-dpct.cc\<close>)\<close>

text \<open>The variable \<^verbatim>\<open>length\<close> of the source is \<open>length'\<close> here.\<close>

subsection \<open>Arguments\<close>

record nstream_config =
  arg_iterations :: int
  arg_length :: int
  arg_grid_stride :: bool

text \<open>
  \<^verbatim>\<open>argv[k]\<close> as a string: the \<open>k\<close>-th entry for \<open>k < argc\<close>. \<^verbatim>\<open>argv[argc]\<close> is the
  null pointer that ends the vector and there is nothing to read beyond it, so there is
  no string for \<open>k \<ge> argc\<close>.
\<close>

definition argv_at :: "string list \<Rightarrow> nat \<Rightarrow> string option" where
  "argv_at argv k = (if k < length argv then Some (argv ! k) else None)"

text \<open>
  The \<^verbatim>\<open>try\<close> block of \<^verbatim>\<open>main\<close>: \<open>Inl (Inl e)\<close> is the message \<open>e\<close> thrown and caught
  (printed, status 1), \<open>Inl (Inr f)\<close> a fault. \<^verbatim>\<open>prk::parse_boolean\<close> is declared in
  \<^verbatim>\<open>prk_util.h\<close>, which is not among the sources; it is the parameter \<open>parse_boolean\<close>.
\<close>

definition nstream_args ::
    "(string \<Rightarrow> bool) \<Rightarrow> string list \<Rightarrow> (string + fault) + nstream_config" where
  "nstream_args parse_boolean argv =
     (let argc = length argv in
      if argc < 3 then Inl (Inl ''Usage: <# iterations> <vector length> [<grid_stride>]'')
      else
        let iterations = atoi (argv ! 1) in
        if iterations < 1 then Inl (Inl ''ERROR: iterations must be >= 1'')
        else
          let length' = atoi (argv ! 2) in
          if length' \<le> 0 then Inl (Inl ''ERROR: vector length must be positive'')
          else if argc > 3 then
            (case argv_at argv 4 of
               None \<Rightarrow> Inl (Inr Null_string)
             | Some a \<Rightarrow>
                 Inr \<lparr>arg_iterations = iterations, arg_length = length',
                      arg_grid_stride = parse_boolean a\<rparr>)
          else
            Inr \<lparr>arg_iterations = iterations, arg_length = length', arg_grid_stride = False\<rparr>)"

subsection \<open>The timed loop\<close>

text \<open>
  Modelled from the spec: \<^verbatim>\<open>prk::divceil\<close> (\<^verbatim>\<open>prk_util.h\<close>, not among the sources)
  gives the number of work-groups of the launch; the direct mapping has "one computation
  unit per element" and "units with index \<ge> n perform no operation", so it is the
  quotient rounded up.
\<close>

definition divceil :: "int \<Rightarrow> int \<Rightarrow> int" where
  "divceil a b = (a + b - 1) div b"

text \<open>
  One submission of a kernel and the wait for it: \<^verbatim>\<open>nstream2\<close> if \<open>grid_stride\<close>, else
  \<^verbatim>\<open>nstream\<close>, over \<open>dimGrid\<close> work-groups of \<open>blockSize = 256\<close> work-items.
\<close>

definition launch ::
    "bool \<Rightarrow> int \<Rightarrow> real \<Rightarrow> real list \<Rightarrow> real list \<Rightarrow> real list \<Rightarrow> real list option" where
  "launch grid_stride length' scalar d_A d_B d_C =
     (let blockSize = 256;
          dimGrid = divceil length' blockSize
      in if grid_stride
         then run_items (\<lambda>item_ct1 A. nstream2 (to_unsigned length') scalar A d_B d_C item_ct1)
                (work_items dimGrid blockSize) d_A
         else run_items (\<lambda>item_ct1 A. Some (nstream (to_unsigned length') scalar A d_B d_C item_ct1))
                (work_items dimGrid blockSize) d_A)"

text \<open>
  The state of a run: the device vector \<^verbatim>\<open>d_A\<close> (\<^verbatim>\<open>d_B\<close> and \<^verbatim>\<open>d_C\<close> do not
  change), the wall clock, the variable \<^verbatim>\<open>nstream_time\<close> and the log.
\<close>

record triad_device =
  d_A :: "real list"
  triad_clock :: real
  nstream_time :: real
  triad_events :: "event list"

function nstream_loop ::
    "bool \<Rightarrow> int \<Rightarrow> real \<Rightarrow> real list \<Rightarrow> real list \<Rightarrow> (int \<Rightarrow> real) \<Rightarrow> int \<Rightarrow> int \<Rightarrow>
       triad_device \<Rightarrow> fault + triad_device" where
  "nstream_loop grid_stride length' scalar d_B d_C body_time iterations iter s =
     (if iter \<le> iterations then
        let s = (if iter = 1
                 then s\<lparr>nstream_time := triad_clock s,
                        triad_events := triad_events s @ [Timer_start iter]\<rparr>
                 else s)
        in
          case launch grid_stride length' scalar (d_A s) d_B d_C of
            None \<Rightarrow> Inl No_return
          | Some A \<Rightarrow>
              let s = s\<lparr>d_A := A, triad_events := triad_events s @ [Kernel_call iter]\<rparr>;
                  s = s\<lparr>triad_clock := triad_clock s + body_time iter\<rparr>
              in nstream_loop grid_stride length' scalar d_B d_C body_time iterations (iter + 1) s
      else Inr s)"
  by pat_completeness auto
termination
  by (relation "measure (\<lambda>(grid_stride, length', scalar, d_B, d_C, body_time, iterations, iter, s).
                   nat (iterations + 1 - iter))")
     auto

declare nstream_loop.simps [simp del]

text \<open>
  From the filling of the host vectors (\<open>A = 0\<close>, \<open>B = C = 2\<close>) to
  \<^verbatim>\<open>nstream_time = prk::wtime() - nstream_time\<close>, with \<^verbatim>\<open>scalar = 3\<close>.
\<close>

definition nstream_run ::
    "bool \<Rightarrow> int \<Rightarrow> (int \<Rightarrow> real) \<Rightarrow> real \<Rightarrow> int \<Rightarrow> fault + triad_device" where
  "nstream_run grid_stride length' body_time now iterations =
     (let h_A = replicate (nat length') 0;
          h_B = replicate (nat length') 2;
          h_C = replicate (nat length') 2;
          scalar = 3;
          s = \<lparr>d_A = h_A, triad_clock = now, nstream_time = 0, triad_events = []\<rparr>
      in case nstream_loop grid_stride length' scalar h_B h_C body_time iterations 0 s of
           Inl e \<Rightarrow> Inl e
         | Inr s \<Rightarrow>
             Inr (s\<lparr>nstream_time := triad_clock s - nstream_time s,
                    triad_events := triad_events s @ [Timer_stop]\<rparr>))"

subsection \<open>Verification\<close>

text \<open>
  \<^verbatim>\<open>ar\<close>: \<open>iterations + 1\<close> additions of \<^verbatim>\<open>br + scalar * cr\<close>, then
  \<^verbatim>\<open>ar *= length\<close>.
\<close>

definition expected_checksum :: "int \<Rightarrow> int \<Rightarrow> real" where
  "expected_checksum iterations length' =
     (let scalar = 3; br = 2; cr = 2;
          ar = for_range 0 (iterations + 1) (\<lambda>i ar. ar + (br + scalar * cr)) 0
      in ar * real_of_int length')"

text \<open>\<^verbatim>\<open>asum\<close>: the sum of \<^verbatim>\<open>std::fabs(h_A[i])\<close>.\<close>

definition observed_checksum :: "int \<Rightarrow> real list \<Rightarrow> real" where
  "observed_checksum length' h_A = for_range 0 length' (\<lambda>i asum. asum + \<bar>h_A ! nat i\<bar>) 0"

text \<open>
  \<^verbatim>\<open>std::fabs(ar - asum) / asum > epsilon\<close>. Where \<^verbatim>\<open>asum\<close> is 0 the quotient of the
  source is not the 0 of \<^typ>\<open>real\<close> division: it is \<open>+\<infinity>\<close>, which is greater than
  \<^verbatim>\<open>epsilon\<close>, unless \<^verbatim>\<open>ar - asum\<close> is 0 too, when it is a NaN and the comparison is
  false.
\<close>

definition relative_error_exceeds :: "real \<Rightarrow> real \<Rightarrow> real \<Rightarrow> bool" where
  "relative_error_exceeds ar asum epsilon =
     (if asum = 0 then \<bar>ar - asum\<bar> \<noteq> 0 else \<bar>ar - asum\<bar> / asum > epsilon)"

definition nstream_verify :: "int \<Rightarrow> int \<Rightarrow> real list \<Rightarrow> real \<Rightarrow> outcome" where
  "nstream_verify iterations length' h_A elapsed =
     (let ar = expected_checksum iterations length';
          asum = observed_checksum length' h_A;
          epsilon = 1 / 10 ^ 8
      in if relative_error_exceeds ar asum epsilon then Not_validated ar asum
         else Validated (elapsed / real_of_int iterations))"

definition nstream_main :: "(string \<Rightarrow> bool) \<Rightarrow> (int \<Rightarrow> real) \<Rightarrow> real \<Rightarrow> string list \<Rightarrow> outcome" where
  "nstream_main parse_boolean body_time now argv =
     (case nstream_args parse_boolean argv of
        Inl (Inl e) \<Rightarrow> Usage_error e
      | Inl (Inr f) \<Rightarrow> Fatal f
      | Inr c \<Rightarrow>
          (case nstream_run (arg_grid_stride c) (arg_length c) body_time now (arg_iterations c) of
             Inl f \<Rightarrow> Fatal f
           | Inr s \<Rightarrow>
               nstream_verify (arg_iterations c) (arg_length c) (d_A s) (nstream_time s)))"


section \<open>Notions used to state the properties\<close>

subsection \<open>The kernels and tables by shape and radius\<close>

text \<open>
  The function of \<^verbatim>\<open>stencil_vector.hpp\<close> for a shape (\<open>star = True\<close> for the star,
  \<open>False\<close> for the grid) and a radius from 1 to 5, and its weight table.
\<close>

definition vector_kernel ::
    "bool \<Rightarrow> int \<Rightarrow> int \<Rightarrow> int \<Rightarrow> real list \<Rightarrow> real list \<Rightarrow> real list option" where
  "vector_kernel star r =
     (if star then
        (if r = 1 then star1 else if r = 2 then star2 else if r = 3 then star3
         else if r = 4 then star4 else star5)
      else
        (if r = 1 then grid1 else if r = 2 then grid2 else if r = 3 then grid3
         else if r = 4 then grid4 else grid5))"

definition weights :: "bool \<Rightarrow> int \<Rightarrow> (int \<times> int \<times> real) list" where
  "weights star r =
     (if star then
        (if r = 1 then star1_weights else if r = 2 then star2_weights
         else if r = 3 then star3_weights else if r = 4 then star4_weights else star5_weights)
      else
        (if r = 1 then grid1_weights else if r = 2 then grid2_weights
         else if r = 3 then grid3_weights else if r = 4 then grid4_weights else grid5_weights))"

text \<open>The sum of the coefficients of a table.\<close>

definition weight_sum :: "(int \<times> int \<times> real) list \<Rightarrow> real" where
  "weight_sum tbl = (\<Sum>(di, dj, w) \<leftarrow> tbl. w)"

text \<open>
  The coefficient a table applies to the neighbour at offset \<open>(di, dj)\<close>: the sum of the
  weights of its rows with that offset.
\<close>

definition coefficient :: "(int \<times> int \<times> real) list \<Rightarrow> int \<Rightarrow> int \<Rightarrow> real" where
  "coefficient tbl di dj = (\<Sum>(a, b, w) \<leftarrow> tbl. if a = di \<and> b = dj then w else 0)"

text \<open>All offsets of a table lie within \<open>r\<close> of the centre in both directions.\<close>

definition within_radius :: "int \<Rightarrow> (int \<times> int \<times> real) list \<Rightarrow> bool" where
  "within_radius r tbl = list_all (\<lambda>(di, dj, w). - r \<le> di \<and> di \<le> r \<and> - r \<le> dj \<and> dj \<le> r) tbl"

text \<open>\<open>k\<close> invocations of a kernel, one after the other, on the same output buffer.\<close>

fun apply_times :: "nat \<Rightarrow> ('s \<Rightarrow> 's option) \<Rightarrow> 's \<Rightarrow> 's option" where
  "apply_times 0 f s = Some s"
| "apply_times (Suc k) f s = Option.bind (f s) (apply_times k f)"

text \<open>
  \<open>updates_on n u S a b\<close>: the \<open>n\<times>n\<close> buffer \<open>b\<close> is the buffer \<open>a\<close> with the value \<open>x\<close> of
  every cell \<open>(i, j)\<close> of \<open>S\<close> replaced by \<open>u i j x\<close> and the other cells as they were.
\<close>

definition updates_on ::
    "int \<Rightarrow> (int \<Rightarrow> int \<Rightarrow> real \<Rightarrow> real) \<Rightarrow> (int \<times> int) set \<Rightarrow> real list \<Rightarrow> real list \<Rightarrow> bool" where
  "updates_on n u S a b \<longleftrightarrow>
     length a = nat (n*n) \<and> length b = nat (n*n) \<and>
     (\<forall>i j. 0 \<le> i \<and> i < n \<and> 0 \<le> j \<and> j < n \<longrightarrow>
        b ! nat (i*n+j) = (if (i, j) \<in> S then u i j (a ! nat (i*n+j)) else a ! nat (i*n+j)))"

text \<open>
  \<open>adds_on n v S a b\<close>: the \<open>n\<times>n\<close> buffer \<open>b\<close> is the buffer \<open>a\<close> with \<open>v i j\<close> added to
  the cells \<open>(i, j)\<close> of \<open>S\<close> and the other cells as they were.
\<close>

definition adds_on :: "int \<Rightarrow> (int \<Rightarrow> int \<Rightarrow> real) \<Rightarrow> (int \<times> int) set \<Rightarrow> real list \<Rightarrow> real list \<Rightarrow> bool" where
  "adds_on n v S a b \<longleftrightarrow>
     length a = nat (n*n) \<and> length b = nat (n*n) \<and>
     (\<forall>i j. 0 \<le> i \<and> i < n \<and> 0 \<le> j \<and> j < n \<longrightarrow>
        b ! nat (i*n+j) = (if (i, j) \<in> S then a ! nat (i*n+j) + v i j else a ! nat (i*n+j)))"

text \<open>
  The rule of the star tables for the neighbours at distance \<open>d\<close> on both axes: the
  coefficient after the centre is \<open>1/(2dr)\<close> to a relative \<open>10\<^sup>-\<^sup>8\<close>, the same on both
  axes, and the coefficients before the centre are its negation.
\<close>

definition star_rule :: "int \<Rightarrow> int \<Rightarrow> bool" where
  "star_rule r d \<longleftrightarrow>
     \<bar>coefficient (weights True r) 0 d - 1 / (2 * real_of_int d * real_of_int r)\<bar>
       \<le> 1 / 10 ^ 8 * (1 / (2 * real_of_int d * real_of_int r)) \<and>
     0 < coefficient (weights True r) 0 d \<and>
     coefficient (weights True r) d 0 = coefficient (weights True r) 0 d \<and>
     coefficient (weights True r) 0 (- d) = - coefficient (weights True r) 0 d \<and>
     coefficient (weights True r) (- d) 0 = - coefficient (weights True r) 0 d"

subsection \<open>Grids and the driver's log\<close>

text \<open>The row-major \<open>n\<times>n\<close> buffer that holds \<open>g i j\<close> in cell \<open>(i, j)\<close>.\<close>

definition field :: "int \<Rightarrow> (int \<Rightarrow> int \<Rightarrow> real) \<Rightarrow> real list" where
  "field n g = map (\<lambda>k. g (int k div n) (int k mod n)) [0..<nat (n*n)]"

text \<open>The cells at least \<open>r\<close> away from every edge of the \<open>n\<times>n\<close> grid.\<close>

definition interior :: "int \<Rightarrow> int \<Rightarrow> int \<Rightarrow> int \<Rightarrow> bool" where
  "interior n r i j \<longleftrightarrow> r \<le> i \<and> i < n - r \<and> r \<le> j \<and> j < n - r"

text \<open>
  What a table adds to an interior cell on an input of slope one in both directions,
  \<^verbatim>\<open>in[i][j] = i + j + c\<close>: the sum of \<open>(di + dj) * w\<close> over its rows (the part
  \<open>(i + j + c) * w\<close> sums to 0 with the weights).
\<close>

definition unit_slope_response :: "(int \<times> int \<times> real) list \<Rightarrow> real" where
  "unit_slope_response tbl = (\<Sum>(di, dj, w) \<leftarrow> tbl. real_of_int (di + dj) * w)"

text \<open>
  The log of the loop bodies \<open>iter\<close>, \<open>iter + 1\<close>, .. \<open>iterations\<close> of the stencil driver:
  each body is one kernel call followed by one perturbation, and the body with counter 1
  reads the clock first.
\<close>

definition loop_log :: "int \<Rightarrow> int \<Rightarrow> event list" where
  "loop_log iter iterations =
     concat (map (\<lambda>k. (if k = 1 then [Timer_start k] else []) @ [Kernel_call k, Perturbation k])
               [iter..iterations])"

subsection \<open>The triad update\<close>

text \<open>
  The vector \<open>A\<close> after \<^verbatim>\<open>A[i] += B[i] + scalar * C[i]\<close> at the indices of \<open>S\<close>, once each,
  and the other elements as they were.
\<close>

definition triad_on :: "int set \<Rightarrow> 'a::{plus,times} \<Rightarrow> 'a list \<Rightarrow> 'a list \<Rightarrow> 'a list \<Rightarrow> 'a list" where
  "triad_on S scalar A B C =
     map (\<lambda>k. if int k \<in> S then A ! k + (B ! k + scalar * C ! k) else A ! k) [0..<length A]"

text \<open>The index \<^verbatim>\<open>get_group(2) * get_local_range().get(2) + get_local_id(2)\<close> of a work-item.\<close>

definition global_id :: "nd_item \<Rightarrow> int" where
  "global_id item = item_group item * item_local_range item + item_local_id item"

text \<open>
  The log of the loop bodies \<open>iter\<close> .. \<open>iterations\<close> of the triad driver: each body is one
  kernel launch, and the body with counter 1 reads the clock first.
\<close>

definition triad_log :: "int \<Rightarrow> int \<Rightarrow> event list" where
  "triad_log iter iterations =
     concat (map (\<lambda>k. (if k = 1 then [Timer_start k] else []) @ [Kernel_call k]) [iter..iterations])"

text \<open>The kinds of entries of a log.\<close>

definition is_kernel_call :: "event \<Rightarrow> bool" where
  "is_kernel_call e = (case e of Kernel_call k \<Rightarrow> True | _ \<Rightarrow> False)"

definition is_perturbation :: "event \<Rightarrow> bool" where
  "is_perturbation e = (case e of Perturbation k \<Rightarrow> True | _ \<Rightarrow> False)"


section \<open>The loop nest of the stencil kernels\<close>

lemma cell_index_bound:
  assumes "0 \<le> i" "i < n" "0 \<le> j" "j < n"
  shows "nat (i*n+j) < nat (n*n)"
proof -
  have "i + 1 \<le> n" using assms by simp
  then have "(i + 1) * n \<le> n * n" using assms by (intro mult_right_mono) auto
  then have "i * n + j < n * n" using assms by (simp add: algebra_simps)
  moreover have "0 \<le> i * n + j" using assms by simp
  ultimately show ?thesis by simp
qed

lemma cell_index_inj:
  assumes "0 \<le> i" "i < n" "0 \<le> j" "j < n" "0 \<le> i'" "i' < n" "0 \<le> j'" "j' < n"
    and eq: "nat (i*n+j) = nat (i'*n+j')"
  shows "i = i' \<and> j = j'"
proof -
  have e: "i * n + j = i' * n + j'" using assms by (simp add: nat_eq_iff)
  have "(i * n + j) div n = i" "(i * n + j) mod n = j" using assms by simp_all
  moreover have "(i' * n + j') div n = i'" "(i' * n + j') mod n = j'" using assms by simp_all
  ultimately show ?thesis using e by simp
qed

lemma updates_on_refl: "length a = nat (n*n) \<Longrightarrow> updates_on n u {} a a"
  by (simp add: updates_on_def)

lemma updates_on_trans:
  assumes "updates_on n u S a b" "updates_on n u T b c" "S \<inter> T = {}"
  shows "updates_on n u (S \<union> T) a c"
  using assms unfolding updates_on_def by (auto split: if_splits)

lemma updates_on_cell:
  assumes "length a = nat (n*n)" "0 \<le> i" "i < n" "0 \<le> j" "j < n"
  shows "updates_on n u {(i, j)} a (a[nat (i*n+j) := u i j (a ! nat (i*n+j))])"
  unfolding updates_on_def
proof (intro conjI allI impI)
  fix i' j' assume h: "0 \<le> i' \<and> i' < n \<and> 0 \<le> j' \<and> j' < n"
  have b: "nat (i*n+j) < length a" using assms cell_index_bound by simp
  show "a[nat (i*n+j) := u i j (a ! nat (i*n+j))] ! nat (i'*n+j') =
        (if (i', j') \<in> {(i, j)} then u i' j' (a ! nat (i'*n+j')) else a ! nat (i'*n+j'))"
  proof (cases "(i', j') = (i, j)")
    case True then show ?thesis using b by simp
  next
    case False
    then have "nat (i*n+j) \<noteq> nat (i'*n+j')" using cell_index_inj [of i n j i' j'] assms h by auto
    then show ?thesis using False by auto
  qed
qed (use assms in simp_all)

lemma updates_on_length: "updates_on n u S a b \<Longrightarrow> length b = nat (n*n)"
  by (simp add: updates_on_def)

lemma for_range_updates:
  assumes step: "\<And>k s. lo \<le> k \<Longrightarrow> k < hi \<Longrightarrow> length s = nat (n*n) \<Longrightarrow> updates_on n u (X k) s (body k s)"
    and disj: "\<And>k k'. k \<noteq> k' \<Longrightarrow> X k \<inter> X k' = {}"
    and len: "length s = nat (n*n)"
  shows "updates_on n u (\<Union>k\<in>{lo..<hi}. X k) s (for_range lo hi body s)"
  using step len
proof (induction lo hi body s rule: for_range.induct)
  case (1 lo hi body s)
  show ?case
  proof (cases "lo < hi")
    case False
    then show ?thesis using "1.prems"(2) by (simp add: for_range.simps updates_on_refl)
  next
    case True
    have a: "updates_on n u (X lo) s (body lo s)" using "1.prems" True by simp
    have b: "updates_on n u (\<Union>k\<in>{lo+1..<hi}. X k) (body lo s) (for_range (lo + 1) hi body (body lo s))"
      using "1.IH" [OF True] "1.prems"(1) updates_on_length [OF a] by simp
    have "X lo \<inter> X k = {}" if "k \<in> {lo+1..<hi}" for k using disj [of lo k] that by simp
    then have d: "X lo \<inter> (\<Union>k\<in>{lo+1..<hi}. X k) = {}" by blast
    have u: "X lo \<union> (\<Union>k\<in>{lo+1..<hi}. X k) = (\<Union>k\<in>{lo..<hi}. X k)"
    proof -
      have "{lo..<hi} = insert lo {lo+1..<hi}" using True by auto
      then show ?thesis by simp
    qed
    have "for_range lo hi body s = for_range (lo + 1) hi body (body lo s)"
      using True by (subst for_range.simps) simp
    then show ?thesis using updates_on_trans [OF a b d] u by simp
  qed
qed

lemma for_tiles_updates:
  assumes t: "0 < t"
    and step: "\<And>k s. lo \<le> k \<Longrightarrow> k < hi \<Longrightarrow> length s = nat (n*n) \<Longrightarrow>
                 \<exists>s'. body k s = Some s' \<and> updates_on n u (\<Union>m\<in>{k..<min hi (k + t)}. X m) s s'"
    and disj: "\<And>k k'. k \<noteq> k' \<Longrightarrow> X k \<inter> X k' = {}"
    and len: "length s = nat (n*n)"
  shows "\<exists>s'. for_tiles lo hi t body s = Some s' \<and> updates_on n u (\<Union>k\<in>{lo..<hi}. X k) s s'"
  using step len
proof (induction "nat (hi - lo)" arbitrary: lo s rule: less_induct)
  case less
  show ?case
  proof (cases "lo < hi")
    case False
    then show ?thesis using less.prems(2) by (simp add: for_tiles.simps updates_on_refl)
  next
    case True
    obtain s1 where s1: "body lo s = Some s1"
      and a: "updates_on n u (\<Union>m\<in>{lo..<min hi (lo + t)}. X m) s s1"
      using less.prems(1) [of lo s] True less.prems(2) by auto
    have "nat (hi - (lo + t)) < nat (hi - lo)" using t True by simp
    then obtain s2 where s2: "for_tiles (lo + t) hi t body s1 = Some s2"
      and b: "updates_on n u (\<Union>k\<in>{lo + t..<hi}. X k) s1 s2"
      using less.hyps [of "lo + t" s1] less.prems(1) t updates_on_length [OF a] by force
    have "X m \<inter> X k = {}" if "m \<in> {lo..<min hi (lo + t)}" "k \<in> {lo + t..<hi}" for m k
      using disj [of m k] that by simp
    then have d: "(\<Union>m\<in>{lo..<min hi (lo + t)}. X m) \<inter> (\<Union>k\<in>{lo + t..<hi}. X k) = {}"
      by blast
    have "{lo..<min hi (lo + t)} \<union> {lo + t..<hi} = {lo..<hi}" using t by auto
    then have u: "(\<Union>m\<in>{lo..<min hi (lo + t)}. X m) \<union> (\<Union>k\<in>{lo + t..<hi}. X k) = (\<Union>k\<in>{lo..<hi}. X k)"
      by (simp add: UN_Un [symmetric])
    have "for_tiles lo hi t body s = Some s2"
      using True s1 s2 by (subst for_tiles.simps) simp
    then show ?thesis using updates_on_trans [OF a b d] u by simp
  qed
qed

lemma adds_on_updates: "adds_on n v S a b = updates_on n (\<lambda>i j x. x + v i j) S a b"
  by (simp add: adds_on_def updates_on_def)

lemma adds_on_length: "adds_on n v S a b \<Longrightarrow> length b = nat (n*n)"
  by (simp add: adds_on_def)

lemma stencil_sweep_adds:
  assumes t: "0 < t" and r: "0 \<le> r" and len: "length out = nat (n*n)"
  shows "\<exists>out'. stencil_sweep r point n t inp out = Some out' \<and>
           adds_on n (point n inp) ({r..<n - r} \<times> {r..<n - r}) out out'"
proof -
  let ?v = "point n inp"
  let ?u = "\<lambda>i j x. x + point n inp i j"
  let ?hi = "n - r"
  have cell: "updates_on n ?u {(i, j)} s (s[nat (i*n+j) := s ! nat (i*n+j) + ?v i j])"
    if "r \<le> i" "i < ?hi" "r \<le> j" "j < ?hi" "length s = nat (n*n)" for i j s
    using updates_on_cell [of s n i j ?u] that r by simp
  have row: "updates_on n ?u (\<Union>j\<in>{jlo..<jhi}. {(i, j)}) s
      (for_range jlo jhi (\<lambda>j out. out[nat (i*n+j) := out ! nat (i*n+j) + ?v i j]) s)"
    if "r \<le> i" "i < ?hi" "r \<le> jlo" "jhi \<le> ?hi" "length s = nat (n*n)" for i jlo jhi s
    by (rule for_range_updates) (use that cell in auto)
  have tile: "updates_on n ?u (\<Union>i\<in>{ilo..<ihi}. {i} \<times> {jlo..<jhi}) s
      (for_range ilo ihi (\<lambda>i. for_range jlo jhi (\<lambda>j out. out[nat (i*n+j) := out ! nat (i*n+j) + ?v i j])) s)"
    if "r \<le> ilo" "ihi \<le> ?hi" "r \<le> jlo" "jhi \<le> ?hi" "length s = nat (n*n)" for ilo ihi jlo jhi s
  proof (rule for_range_updates)
    fix k and s :: "real list" assume "ilo \<le> k" "k < ihi" "length s = nat (n*n)"
    then have "updates_on n ?u (\<Union>j\<in>{jlo..<jhi}. {(k, j)}) s
      (for_range jlo jhi (\<lambda>j out. out[nat (k*n+j) := out ! nat (k*n+j) + ?v k j]) s)"
      using row [of k jlo jhi s] that by simp
    moreover have "(\<Union>j\<in>{jlo..<jhi}. {(k, j)}) = {k} \<times> {jlo..<jhi}" by auto
    ultimately show "updates_on n ?u ({k} \<times> {jlo..<jhi}) s
      (for_range jlo jhi (\<lambda>j out. out[nat (k*n+j) := out ! nat (k*n+j) + ?v k j]) s)" by simp
  qed (use that in auto)
  have strip: "\<exists>s'. for_tiles r ?hi t (\<lambda>jt out.
         Some (for_range it (min ?hi (it + t)) (\<lambda>i.
                 for_range jt (min ?hi (jt + t)) (\<lambda>j out.
                   out[nat (i*n+j) := out ! nat (i*n+j) + ?v i j])) out)) s = Some s' \<and>
        updates_on n ?u (\<Union>j\<in>{r..<?hi}. {it..<min ?hi (it + t)} \<times> {j}) s s'"
    if "r \<le> it" "length s = nat (n*n)" for it s
  proof (rule for_tiles_updates [OF t])
    fix k and s :: "real list" assume h: "r \<le> k" "k < ?hi" "length s = nat (n*n)"
    have "(\<Union>i\<in>{it..<min ?hi (it + t)}. {i} \<times> {k..<min ?hi (k + t)})
        = (\<Union>m\<in>{k..<min ?hi (k + t)}. {it..<min ?hi (it + t)} \<times> {m})" by auto
    then show "\<exists>s'. Some (for_range it (min ?hi (it + t)) (\<lambda>i.
                 for_range k (min ?hi (k + t)) (\<lambda>j out.
                   out[nat (i*n+j) := out ! nat (i*n+j) + ?v i j])) s) = Some s' \<and>
        updates_on n ?u (\<Union>m\<in>{k..<min ?hi (k + t)}. {it..<min ?hi (it + t)} \<times> {m}) s s'"
      using tile [of it "min ?hi (it + t)" k "min ?hi (k + t)" s] that h by simp
  qed (use that in auto)
  have "\<exists>s'. stencil_sweep r point n t inp out = Some s' \<and>
        updates_on n ?u (\<Union>i\<in>{r..<?hi}. {i} \<times> {r..<?hi}) out s'"
    unfolding stencil_sweep_def
  proof (rule for_tiles_updates [OF t])
    fix k and s :: "real list" assume h: "r \<le> k" "k < ?hi" "length s = nat (n*n)"
    have "(\<Union>j\<in>{r..<?hi}. {k..<min ?hi (k + t)} \<times> {j}) = (\<Union>m\<in>{k..<min ?hi (k + t)}. {m} \<times> {r..<?hi})"
      by auto
    then show "\<exists>s'. for_tiles r ?hi t (\<lambda>jt out.
         Some (for_range k (min ?hi (k + t)) (\<lambda>i.
                 for_range jt (min ?hi (jt + t)) (\<lambda>j out.
                   out[nat (i*n+j) := out ! nat (i*n+j) + ?v i j])) out)) s = Some s' \<and>
        updates_on n ?u (\<Union>m\<in>{k..<min ?hi (k + t)}. {m} \<times> {r..<?hi}) s s'"
      using strip [of k s] h by simp
  qed (use len in auto)
  moreover have "(\<Union>i\<in>{r..<?hi}. {i} \<times> {r..<?hi}) = {r..<?hi} \<times> {r..<?hi}" by auto
  ultimately show ?thesis by (simp add: adds_on_updates)
qed

lemma star1_table: "star1_point = apply_weights star1_weights"
  by (intro ext) (simp add: star1_point_def star1_weights_def apply_weights_def)

lemma star2_table: "star2_point = apply_weights star2_weights"
  by (intro ext) (simp add: star2_point_def star2_weights_def apply_weights_def)

lemma star3_table: "star3_point = apply_weights star3_weights"
  by (intro ext) (simp add: star3_point_def star3_weights_def apply_weights_def)

lemma star4_table: "star4_point = apply_weights star4_weights"
  by (intro ext) (simp add: star4_point_def star4_weights_def apply_weights_def)

lemma star5_table: "star5_point = apply_weights star5_weights"
  by (intro ext) (simp add: star5_point_def star5_weights_def apply_weights_def)

lemma grid1_table: "grid1_point = apply_weights grid1_weights"
  by (intro ext) (simp add: grid1_point_def grid1_weights_def apply_weights_def)

lemma grid2_table: "grid2_point = apply_weights grid2_weights"
  by (intro ext) (simp add: grid2_point_def grid2_weights_def apply_weights_def)

lemma grid3_table: "grid3_point = apply_weights grid3_weights"
  by (intro ext) (simp add: grid3_point_def grid3_weights_def apply_weights_def)

lemma grid4_table: "grid4_point = apply_weights grid4_weights"
  by (intro ext) (simp add: grid4_point_def grid4_weights_def apply_weights_def)

lemma grid5_table: "grid5_point = apply_weights grid5_weights"
  by (intro ext) (simp add: grid5_point_def grid5_weights_def apply_weights_def)

lemmas kernel_tables = star1_table star2_table star3_table star4_table star5_table
  grid1_table grid2_table grid3_table grid4_table grid5_table

lemmas kernel_defs = star1_def star2_def star3_def star4_def star5_def
  grid1_def grid2_def grid3_def grid4_def grid5_def

lemma radius_cases: "r \<in> {1..5} \<Longrightarrow> r = 1 \<or> r = 2 \<or> r = 3 \<or> r = 4 \<or> r = (5::int)"
  by auto

lemma vector_kernel_sweep:
  assumes "r \<in> {1..5}"
  shows "vector_kernel star r n t inp out = stencil_sweep r (apply_weights (weights star r)) n t inp out"
  using radius_cases [OF assms]
  by (auto simp: vector_kernel_def weights_def kernel_defs kernel_tables)

lemma weight_sum_zero:
  assumes "r \<in> {1..5}"
  shows "weight_sum (weights star r) = 0"
proof -
  have "weight_sum star1_weights = 0" by (simp add: weight_sum_def star1_weights_def)
  moreover have "weight_sum star2_weights = 0" by (simp add: weight_sum_def star2_weights_def)
  moreover have "weight_sum star3_weights = 0" by (simp add: weight_sum_def star3_weights_def)
  moreover have "weight_sum star4_weights = 0" by (simp add: weight_sum_def star4_weights_def)
  moreover have "weight_sum star5_weights = 0" by (simp add: weight_sum_def star5_weights_def)
  moreover have "weight_sum grid1_weights = 0" by (simp add: weight_sum_def grid1_weights_def)
  moreover have "weight_sum grid2_weights = 0" by (simp add: weight_sum_def grid2_weights_def)
  moreover have "weight_sum grid3_weights = 0" by (simp add: weight_sum_def grid3_weights_def)
  moreover have "weight_sum grid4_weights = 0" by (simp add: weight_sum_def grid4_weights_def)
  moreover have "weight_sum grid5_weights = 0" by (simp add: weight_sum_def grid5_weights_def)
  ultimately show ?thesis using radius_cases [OF assms] by (auto simp: weights_def)
qed

lemma weights_within_radius:
  assumes "r \<in> {1..5}"
  shows "within_radius r (weights star r)"
proof -
  have "within_radius 1 star1_weights" by (simp add: within_radius_def star1_weights_def)
  moreover have "within_radius 2 star2_weights" by (simp add: within_radius_def star2_weights_def)
  moreover have "within_radius 3 star3_weights" by (simp add: within_radius_def star3_weights_def)
  moreover have "within_radius 4 star4_weights" by (simp add: within_radius_def star4_weights_def)
  moreover have "within_radius 5 star5_weights" by (simp add: within_radius_def star5_weights_def)
  moreover have "within_radius 1 grid1_weights" by (simp add: within_radius_def grid1_weights_def)
  moreover have "within_radius 2 grid2_weights" by (simp add: within_radius_def grid2_weights_def)
  moreover have "within_radius 3 grid3_weights" by (simp add: within_radius_def grid3_weights_def)
  moreover have "within_radius 4 grid4_weights" by (simp add: within_radius_def grid4_weights_def)
  moreover have "within_radius 5 grid5_weights" by (simp add: within_radius_def grid5_weights_def)
  ultimately show ?thesis using radius_cases [OF assms] by (auto simp: weights_def)
qed

text \<open>On an input that holds \<open>g a b\<close> in cell \<open>(a, b)\<close>, the weighted sum at an interior
  cell reads \<open>g\<close> only.\<close>

lemma apply_weights_field:
  assumes wr: "within_radius r tbl"
    and int: "r \<le> i" "i < n - r" "r \<le> j" "j < n - r"
    and g: "\<And>a b. 0 \<le> a \<Longrightarrow> a < n \<Longrightarrow> 0 \<le> b \<Longrightarrow> b < n \<Longrightarrow> inp ! nat (a*n+b) = g a b"
  shows "apply_weights tbl n inp i j = (\<Sum>(di, dj, w) \<leftarrow> tbl. g (i + di) (j + dj) * w)"
  unfolding apply_weights_def
proof (rule arg_cong [where f = sum_list], rule map_cong [OF refl])
  fix x assume x: "x \<in> set tbl"
  obtain di dj w where xe: "x = (di, dj, w)" by (cases x) auto
  have "- r \<le> di \<and> di \<le> r \<and> - r \<le> dj \<and> dj \<le> r"
    using wr x xe by (auto simp: within_radius_def list_all_iff)
  then have "inp ! nat ((i + di) * n + (j + dj)) = g (i + di) (j + dj)"
    using int by (intro g) auto
  then show "(case x of (di, dj, w) \<Rightarrow> inp ! nat ((i + di) * n + (j + dj)) * w)
           = (case x of (di, dj, w) \<Rightarrow> g (i + di) (j + dj) * w)"
    by (simp add: xe)
qed




lemma grid_list_eqI:
  assumes "0 \<le> n" "length a = nat (n*n)" "length b = nat (n*n)"
    and "\<And>i j. 0 \<le> i \<Longrightarrow> i < n \<Longrightarrow> 0 \<le> j \<Longrightarrow> j < n \<Longrightarrow> a ! nat (i*n+j) = b ! nat (i*n+j)"
  shows "a = b"
proof (rule nth_equalityI)
  fix k assume k: "k < length a"
  then have "n \<noteq> 0" using assms(2) by auto
  then have npos: "0 < n" using assms(1) by simp
  define i where "i = int k div n"
  define j where "j = int k mod n"
  have "int k < n * n" using k assms(2) by linarith
  have j: "0 \<le> j" "j < n" unfolding j_def using npos by simp_all
  have ke: "int k = i * n + j" unfolding i_def j_def by simp
  have "i < n"
  proof (rule ccontr)
    assume "\<not> i < n"
    then have "n * n \<le> i * n" using npos by (intro mult_right_mono) auto
    then show False using ke j \<open>int k < n * n\<close> by linarith
  qed
  moreover have "0 \<le> i" unfolding i_def using npos by (simp add: pos_imp_zdiv_nonneg_iff)
  moreover note j
  moreover have "nat (i*n+j) = k" using ke by simp
  ultimately show "a ! k = b ! k" using assms(4) [of i j] by simp
qed (use assms in simp)




lemma apply_times_adds:
  assumes step: "\<And>s. length s = nat (n*n) \<Longrightarrow> \<exists>s'. f s = Some s' \<and> adds_on n v S s s'"
    and len: "length out = nat (n*n)"
  shows "\<exists>out'. apply_times m f out = Some out' \<and> adds_on n (\<lambda>i j. real m * v i j) S out out'"
  using len
proof (induction m arbitrary: out)
  case 0
  then show ?case by (simp add: adds_on_def)
next
  case (Suc m)
  obtain s1 where s1: "f out = Some s1" and a1: "adds_on n v S out s1"
    using step [OF Suc.prems] by auto
  obtain s2 where s2: "apply_times m f s1 = Some s2"
    and a2: "adds_on n (\<lambda>i j. real m * v i j) S s1 s2"
    using Suc.IH [of s1] adds_on_length [OF a1] by auto
  have "adds_on n (\<lambda>i j. real (Suc m) * v i j) S out s2"
    using a1 a2 unfolding adds_on_def by (auto simp: algebra_simps)
  then show ?case using s1 s2 by simp
qed

lemma vector_kernel_adds:
  assumes "r \<in> {1..5}" "0 < t" "length out = nat (n*n)"
  shows "\<exists>out'. vector_kernel star r n t inp out = Some out' \<and>
           adds_on n (apply_weights (weights star r) n inp) ({r..<n - r} \<times> {r..<n - r}) out out'"
proof -
  have "0 \<le> r" using assms(1) by auto
  then show ?thesis
    using stencil_sweep_adds [OF assms(2) _ assms(3), of r "apply_weights (weights star r)" inp]
    by (simp add: vector_kernel_sweep [OF assms(1)])
qed

lemma star_rule_1: "star_rule 1 1"
  by (simp add: star_rule_def coefficient_def weights_def star1_weights_def)

lemma star_rule_2: "star_rule 2 1" "star_rule 2 2"
  by (simp_all add: star_rule_def coefficient_def weights_def star2_weights_def)

lemma star_rule_3: "star_rule 3 1" "star_rule 3 2" "star_rule 3 3"
  by (simp_all add: star_rule_def coefficient_def weights_def star3_weights_def)

lemma star_rule_4: "star_rule 4 1" "star_rule 4 2" "star_rule 4 3" "star_rule 4 4"
  by (simp_all add: star_rule_def coefficient_def weights_def star4_weights_def)

lemma star_rule_5: "star_rule 5 1" "star_rule 5 2" "star_rule 5 3" "star_rule 5 4" "star_rule 5 5"
  by (simp_all add: star_rule_def coefficient_def weights_def star5_weights_def)

lemma star_rule_all:
  assumes "r \<in> {1..5}" "d \<in> {1..r}"
  shows "star_rule r d"
proof -
  have d: "1 \<le> d" "d \<le> r" using assms(2) by simp_all
  from radius_cases [OF assms(1)] show ?thesis
  proof (elim disjE)
    assume "r = 1"
    then have "d = 1" using d by simp
    then show ?thesis using \<open>r = 1\<close> star_rule_1 by simp
  next
    assume r: "r = 2"
    then have "d = 1 \<or> d = 2" using d by presburger
    then show ?thesis using r star_rule_2 by auto
  next
    assume r: "r = 3"
    then have "d = 1 \<or> d = 2 \<or> d = 3" using d by presburger
    then show ?thesis using r star_rule_3 by auto
  next
    assume r: "r = 4"
    then have "d = 1 \<or> d = 2 \<or> d = 3 \<or> d = 4" using d by presburger
    then show ?thesis using r star_rule_4 by auto
  next
    assume r: "r = 5"
    then have "d = 1 \<or> d = 2 \<or> d = 3 \<or> d = 4 \<or> d = 5" using d by presburger
    then show ?thesis using r star_rule_5 by auto
  qed
qed


section \<open>The stencil driver: initialisation, loop and verification\<close>

lemma length_field [simp]: "length (field n g) = nat (n*n)"
  by (simp add: field_def)

lemma field_nth:
  assumes "0 \<le> i" "i < n" "0 \<le> j" "j < n"
  shows "field n g ! nat (i*n+j) = g i j"
proof -
  have "nat (i*n+j) < nat (n*n)" using assms by (rule cell_index_bound)
  moreover have "(i*n+j) div n = i" "(i*n+j) mod n = j" using assms by simp_all
  moreover have "0 \<le> i*n+j" using assms by simp
  ultimately show ?thesis by (simp add: field_def)
qed

lemma field_eqI:
  assumes "0 \<le> n" "length a = nat (n*n)"
    and "\<And>i j. 0 \<le> i \<Longrightarrow> i < n \<Longrightarrow> 0 \<le> j \<Longrightarrow> j < n \<Longrightarrow> a ! nat (i*n+j) = g i j"
  shows "a = field n g"
  using assms by (intro grid_list_eqI [of n]) (simp_all add: field_nth)

lemma updates_on_field:
  assumes "0 \<le> n" "updates_on n u S (field n g) b"
  shows "b = field n (\<lambda>i j. if (i, j) \<in> S then u i j (g i j) else g i j)"
  using assms by (intro field_eqI) (auto simp: updates_on_def field_nth)

lemma parallel_for2_updates:
  assumes "length a = nat (n*n)"
  shows "updates_on n u ({0..<n} \<times> {0..<n}) a
           (parallel_for2 n (\<lambda>i j a. a[nat (i*n+j) := u i j (a ! nat (i*n+j))]) a)"
proof -
  have row: "updates_on n u ({i} \<times> {0..<n}) s
      (for_range 0 n (\<lambda>j a. a[nat (i*n+j) := u i j (a ! nat (i*n+j))]) s)"
    if "0 \<le> i" "i < n" "length s = nat (n*n)" for i and s :: "real list"
  proof -
    have "updates_on n u (\<Union>j\<in>{0..<n}. {(i, j)}) s
      (for_range 0 n (\<lambda>j a. a[nat (i*n+j) := u i j (a ! nat (i*n+j))]) s)"
      by (rule for_range_updates) (use that updates_on_cell in auto)
    moreover have "(\<Union>j\<in>{0..<n}. {(i, j)}) = {i} \<times> {0..<n}" by auto
    ultimately show ?thesis by simp
  qed
  have "updates_on n u (\<Union>i\<in>{0..<n}. {i} \<times> {0..<n}) a
      (for_range 0 n (\<lambda>i. for_range 0 n (\<lambda>j a. a[nat (i*n+j) := u i j (a ! nat (i*n+j))])) a)"
    by (rule for_range_updates) (use assms row in auto)
  moreover have "(\<Union>i\<in>{0..<n}. {i} \<times> {0..<n}) = {0..<n} \<times> {0..<n}" by auto
  ultimately show ?thesis by (simp add: parallel_for2_def)
qed

lemma parallel_for2_field:
  assumes "0 \<le> n"
  shows "parallel_for2 n (\<lambda>i j a. a[nat (i*n+j) := u i j (a ! nat (i*n+j))]) (field n g)
       = field n (\<lambda>i j. u i j (g i j))"
proof -
  have "parallel_for2 n (\<lambda>i j a. a[nat (i*n+j) := u i j (a ! nat (i*n+j))]) (field n g)
      = field n (\<lambda>i j. if (i, j) \<in> {0..<n} \<times> {0..<n} then u i j (g i j) else g i j)"
    using parallel_for2_updates [of "field n g" n u] by (intro updates_on_field [OF assms]) simp
  also have "\<dots> = field n (\<lambda>i j. u i j (g i j))"
    using assms by (intro field_eqI) (simp_all add: field_nth)
  finally show ?thesis .
qed

lemma for_range_d_in:
  "for_range lo hi (\<lambda>k s. s\<lparr>d_in := f k (d_in s)\<rparr>) s = s\<lparr>d_in := for_range lo hi f (d_in s)\<rparr>"
proof (induction lo hi f "d_in s" arbitrary: s rule: for_range.induct)
  case (1 lo hi f)
  show ?case
  proof (cases "lo < hi")
    case True
    then show ?thesis
      using "1.hyps" [of "s\<lparr>d_in := f lo (d_in s)\<rparr>"]
      by (subst for_range.simps, subst (2) for_range.simps) simp
  next
    case False
    then show ?thesis by (simp add: for_range.simps)
  qed
qed

lemma for_range_d_in_out:
  "for_range lo hi (\<lambda>k s. s\<lparr>d_in := f k (d_in s), d_out := g k (d_out s)\<rparr>) s
     = s\<lparr>d_in := for_range lo hi f (d_in s), d_out := for_range lo hi g (d_out s)\<rparr>"
proof (induction "nat (hi - lo)" arbitrary: lo s)
  case 0
  then show ?case by (simp add: for_range.simps)
next
  case (Suc m)
  then have "lo < hi" by simp
  moreover have "m = nat (hi - (lo + 1))" using Suc.hyps(2) by simp
  ultimately show ?case
    using Suc.hyps(1) [of "lo + 1" "s\<lparr>d_in := f lo (d_in s), d_out := g lo (d_out s)\<rparr>"]
    by (subst for_range.simps, subst (2) for_range.simps, subst (3) for_range.simps) simp
qed

lemma parallel_for2_d_in:
  "parallel_for2 n (\<lambda>i j s. s\<lparr>d_in := F i j (d_in s)\<rparr>) s = s\<lparr>d_in := parallel_for2 n F (d_in s)\<rparr>"
proof -
  have inner: "(\<lambda>i. for_range 0 n (\<lambda>j s. s\<lparr>d_in := F i j (d_in s)\<rparr>))
             = (\<lambda>i s. s\<lparr>d_in := for_range 0 n (F i) (d_in s)\<rparr>)"
  proof (intro ext)
    fix i s show "for_range 0 n (\<lambda>j s. s\<lparr>d_in := F i j (d_in s)\<rparr>) s
                = s\<lparr>d_in := for_range 0 n (F i) (d_in s)\<rparr>"
      by (fact for_range_d_in [of 0 n "F i" s])
  qed
  show ?thesis unfolding parallel_for2_def inner
    by (fact for_range_d_in [of 0 n "\<lambda>i. for_range 0 n (F i)" s])
qed

lemma parallel_for2_d_in_out:
  "parallel_for2 n (\<lambda>i j s. s\<lparr>d_in := F i j (d_in s), d_out := G i j (d_out s)\<rparr>) s
     = s\<lparr>d_in := parallel_for2 n F (d_in s), d_out := parallel_for2 n G (d_out s)\<rparr>"
proof -
  have inner: "(\<lambda>i. for_range 0 n (\<lambda>j s. s\<lparr>d_in := F i j (d_in s), d_out := G i j (d_out s)\<rparr>))
             = (\<lambda>i s. s\<lparr>d_in := for_range 0 n (F i) (d_in s), d_out := for_range 0 n (G i) (d_out s)\<rparr>)"
  proof (intro ext)
    fix i s show "for_range 0 n (\<lambda>j s. s\<lparr>d_in := F i j (d_in s), d_out := G i j (d_out s)\<rparr>) s
                = s\<lparr>d_in := for_range 0 n (F i) (d_in s), d_out := for_range 0 n (G i) (d_out s)\<rparr>"
      by (fact for_range_d_in_out [where lo = 0 and hi = n and f = "F i" and g = "G i" and s = s])
  qed
  show ?thesis unfolding parallel_for2_def inner
    by (fact for_range_d_in_out [where lo = 0 and hi = n and f = "\<lambda>i. for_range 0 n (F i)"
          and g = "\<lambda>i. for_range 0 n (G i)" and s = s])
qed

lemma perturb_d_in:
  "perturb n s = s\<lparr>d_in := parallel_for2 n (\<lambda>i j a. a[nat (i*n+j) := a ! nat (i*n+j) + 1]) (d_in s)\<rparr>"
  unfolding perturb_def
  by (fact parallel_for2_d_in [of n "\<lambda>i j a. a[nat (i*n+j) := a ! nat (i*n+j) + 1]" s])

lemma initialize_d_in_out:
  "initialize n s =
     s\<lparr>d_in := parallel_for2 n (\<lambda>i j a. a[nat (i*n+j) := real_of_int (i+j)]) (d_in s),
       d_out := parallel_for2 n (\<lambda>i j a. a[nat (i*n+j) := 0]) (d_out s)\<rparr>"
  unfolding initialize_def
  by (fact parallel_for2_d_in_out [where n = n and F = "\<lambda>i j a. a[nat (i*n+j) := real_of_int (i+j)]"
            and G = "\<lambda>i j a. a[nat (i*n+j) := 0]" and s = s])

lemma perturb_field:
  assumes "0 \<le> n" "d_in s = field n g"
  shows "perturb n s = s\<lparr>d_in := field n (\<lambda>i j. g i j + 1)\<rparr>"
  using parallel_for2_field [OF assms(1), of "\<lambda>i j x. x + 1" g] assms(2)
  by (simp add: perturb_d_in)

lemma junk_field:
  assumes "0 \<le> n"
  shows "map junk [0..<nat (n*n)] = field n (\<lambda>i j. junk (nat (i*n+j)))"
proof (rule field_eqI [OF assms])
  fix i j assume "0 \<le> i" "i < n" "0 \<le> j" "j < n"
  then have "nat (i*n+j) < nat (n*n)" by (rule cell_index_bound)
  then have "nat (i*n+j) < length [0..<nat (n*n)]" by simp
  then show "map junk [0..<nat (n*n)] ! nat (i*n+j) = junk (nat (i*n+j))"
    by (simp only: nth_map nth_upt length_upt) simp
qed simp

lemma initialize_field:
  assumes "0 \<le> n" "length (d_in s) = nat (n*n)" "length (d_out s) = nat (n*n)"
  shows "initialize n s = s\<lparr>d_in := field n (\<lambda>i j. real_of_int (i+j)), d_out := field n (\<lambda>i j. 0)\<rparr>"
proof -
  have "parallel_for2 n (\<lambda>i j a. a[nat (i*n+j) := real_of_int (i+j)]) (d_in s)
      = field n (\<lambda>i j. real_of_int (i+j))"
    using parallel_for2_updates [OF assms(2), of "\<lambda>i j x. real_of_int (i+j)"] assms(1)
    by (intro field_eqI) (auto simp: updates_on_def)
  moreover have "parallel_for2 n (\<lambda>i j a. a[nat (i*n+j) := 0]) (d_out s) = field n (\<lambda>i j. 0)"
    using parallel_for2_updates [OF assms(3), of "\<lambda>i j x. 0"] assms(1)
    by (intro field_eqI) (auto simp: updates_on_def)
  ultimately show ?thesis by (simp add: initialize_d_in_out)
qed

lemma call_stencil_star:
  assumes "r \<in> {1..5}"
  shows "call_stencil (select_stencil True r) n t inp out = returned (vector_kernel True r n t inp out)"
  using radius_cases [OF assms]
  by (auto simp: call_stencil_def select_stencil_def vector_kernel_def)

lemma interior_in_grid:
  assumes "0 \<le> r" "interior n r i j"
  shows "0 \<le> i \<and> i < n \<and> 0 \<le> j \<and> j < n"
  using assms by (auto simp: interior_def)

lemma call_stencil_field:
  assumes r: "r \<in> {1..5}" and t: "0 < t" and n: "0 \<le> n"
  shows "call_stencil (select_stencil True r) n t (field n g) (field n h) =
           Inr (field n (\<lambda>i j. if interior n r i j
                                then h i j + apply_weights (weights True r) n (field n g) i j
                                else h i j))"
proof -
  obtain out' where k: "vector_kernel True r n t (field n g) (field n h) = Some out'"
    and a: "adds_on n (apply_weights (weights True r) n (field n g)) ({r..<n - r} \<times> {r..<n - r})
              (field n h) out'"
    using vector_kernel_adds [OF r t, of "field n h" n True "field n g"] by auto
  have "out' = field n (\<lambda>i j. if (i, j) \<in> {r..<n - r} \<times> {r..<n - r}
                                then h i j + apply_weights (weights True r) n (field n g) i j
                                else h i j)"
    using a unfolding adds_on_updates by (rule updates_on_field [OF n])
  also have "\<dots> = field n (\<lambda>i j. if interior n r i j
                                then h i j + apply_weights (weights True r) n (field n g) i j
                                else h i j)"
    by (simp add: interior_def)
  finally show ?thesis using k by (simp add: call_stencil_star [OF r] returned_def)
qed

lemma sum_list_slope:
  "(\<Sum>(di, dj, w) \<leftarrow> tbl. (a + real_of_int (di + dj)) * w)
     = a * weight_sum tbl + unit_slope_response tbl"
  unfolding weight_sum_def unit_slope_response_def
  by (induction tbl) (auto simp: algebra_simps)

lemma apply_weights_slope:
  assumes r: "r \<in> {1..5}" and int: "interior n r i j"
  shows "apply_weights (weights star r) n (field n (\<lambda>i j. real_of_int (i + j) + c)) i j
       = unit_slope_response (weights star r)"
proof -
  have i: "r \<le> i" "i < n - r" "r \<le> j" "j < n - r" using int by (simp_all add: interior_def)
  have "apply_weights (weights star r) n (field n (\<lambda>i j. real_of_int (i + j) + c)) i j
      = (\<Sum>(di, dj, w) \<leftarrow> weights star r. (real_of_int ((i + di) + (j + dj)) + c) * w)"
    by (rule apply_weights_field [OF weights_within_radius [OF r] i]) (rule field_nth)
  also have "\<dots> = (\<Sum>(di, dj, w) \<leftarrow> weights star r. ((real_of_int (i + j) + c) + real_of_int (di + dj)) * w)"
    by (intro arg_cong [where f = sum_list] map_cong refl) (auto simp: algebra_simps)
  also have "\<dots> = (real_of_int (i + j) + c) * weight_sum (weights star r) + unit_slope_response (weights star r)"
    by (rule sum_list_slope)
  finally show ?thesis by (simp add: weight_sum_zero [OF r])
qed

lemma stencil_loop_done:
  "\<not> iter \<le> iterations \<Longrightarrow> stencil_loop stencil n t bt iterations iter s = Inr s"
  by (subst stencil_loop.simps) simp

lemma stencil_loop_fail:
  assumes "iter \<le> iterations" "call_stencil stencil n t (d_in s) (d_out s) = Inl e"
  shows "stencil_loop stencil n t bt iterations iter s = Inl e"
  using assms by (subst stencil_loop.simps) (simp add: Let_def)

lemma stencil_loop_step:
  assumes "iter \<le> iterations" "call_stencil stencil n t (d_in s) (d_out s) = Inr out"
  shows "stencil_loop stencil n t bt iterations iter s =
         stencil_loop stencil n t bt iterations (iter + 1)
           (s\<lparr>d_in := parallel_for2 n (\<lambda>i j a. a[nat (i*n+j) := a ! nat (i*n+j) + 1]) (d_in s),
              d_out := out,
              clock := clock s + bt iter,
              stencil_time := (if iter = 1 then clock s else stencil_time s),
              events := events s @ (if iter = 1 then [Timer_start iter] else [])
                          @ [Kernel_call iter, Perturbation iter]\<rparr>)"
  using assms by (subst stencil_loop.simps) (cases s, simp add: Let_def perturb_d_in)

lemma loop_log_step:
  assumes "iter \<le> iterations"
  shows "loop_log iter iterations =
     (if iter = 1 then [Timer_start iter] else []) @ [Kernel_call iter, Perturbation iter]
       @ loop_log (iter + 1) iterations"
proof -
  have "[iter..iterations] = iter # [iter + 1..iterations]" using assms by (rule upto_rec1)
  then show ?thesis unfolding loop_log_def by (simp only: list.map concat.simps append_assoc)
qed

lemma loop_log_done: "\<not> iter \<le> iterations \<Longrightarrow> loop_log iter iterations = []"
  by (simp add: loop_log_def)

lemma sum_from: "(a::int) \<le> b \<Longrightarrow> (\<Sum>k\<in>{a..b}. f k) = (f a :: real) + (\<Sum>k\<in>{a + 1..b}. f k)"
proof -
  assume "a \<le> b"
  then have "{a..b} = insert a {a + 1..b}" by auto
  then show ?thesis by simp
qed

lemma sum_from_less: "(a::int) < b \<Longrightarrow> (\<Sum>k\<in>{a..<b}. f k) = (f a :: real) + (\<Sum>k\<in>{a + 1..<b}. f k)"
proof -
  assume "a < b"
  then have "{a..<b} = insert a {a + 1..<b}" by auto
  then show ?thesis by simp
qed

lemma stencil_loop_log:
  assumes "stencil_loop stencil n t bt iterations iter s = Inr s'"
  shows "events s' = events s @ loop_log iter iterations \<and>
         clock s' = clock s + (\<Sum>k\<in>{iter..iterations}. bt k) \<and>
         stencil_time s' = (if iter \<le> 1 \<and> 1 \<le> iterations
                            then clock s + (\<Sum>k\<in>{iter..<1}. bt k) else stencil_time s)"
  using assms
proof (induction "nat (iterations + 1 - iter)" arbitrary: iter s)
  case 0
  then have "\<not> iter \<le> iterations" by simp
  then show ?case using "0.prems" by (auto simp: stencil_loop_done loop_log_done)
next
  case (Suc m)
  then have le: "iter \<le> iterations" by simp
  show ?case
  proof (cases "call_stencil stencil n t (d_in s) (d_out s)")
    case (Inl e)
    then show ?thesis using Suc.prems stencil_loop_fail [OF le Inl] by simp
  next
    case (Inr out)
    let ?s1 = "s\<lparr>d_in := parallel_for2 n (\<lambda>i j a. a[nat (i*n+j) := a ! nat (i*n+j) + 1]) (d_in s),
              d_out := out,
              clock := clock s + bt iter,
              stencil_time := (if iter = 1 then clock s else stencil_time s),
              events := events s @ (if iter = 1 then [Timer_start iter] else [])
                          @ [Kernel_call iter, Perturbation iter]\<rparr>"
    have run: "stencil_loop stencil n t bt iterations (iter + 1) ?s1 = Inr s'"
      using Suc.prems stencil_loop_step [OF le Inr] by simp
    have m: "m = nat (iterations + 1 - (iter + 1))" using Suc.hyps(2) by simp
    note ih = Suc.hyps(1) [OF m run]
    have e: "events s' = events s @ loop_log iter iterations"
      using ih by (simp add: loop_log_step [OF le])
    have c: "clock s' = clock s + (\<Sum>k\<in>{iter..iterations}. bt k)"
      using ih by (simp add: sum_from [OF le])
    have st: "stencil_time s' = (if iter \<le> 1 \<and> 1 \<le> iterations
                            then clock s + (\<Sum>k\<in>{iter..<1}. bt k) else stencil_time s)"
    proof (cases "iter < 1")
      case True
      then show ?thesis using ih le by (simp add: sum_from_less [OF True])
    next
      case False
      then show ?thesis using ih le by (cases "iter = 1") auto
    qed
    show ?thesis using e c st by simp
  qed
qed

lemma stencil_loop_star:
  assumes r: "r \<in> {1..5}" and t: "0 < t" and n: "0 \<le> n"
    and "iter \<le> iterations + 1"
    and "d_in s = field n (\<lambda>i j. real_of_int (i + j) + real_of_int iter)"
    and "d_out s = field n (\<lambda>i j. if interior n r i j
                       then real_of_int iter * unit_slope_response (weights True r) else 0)"
  shows "\<exists>s'. stencil_loop (select_stencil True r) n t bt iterations iter s = Inr s' \<and>
           d_in s' = field n (\<lambda>i j. real_of_int (i + j) + real_of_int (iterations + 1)) \<and>
           d_out s' = field n (\<lambda>i j. if interior n r i j
                       then real_of_int (iterations + 1) * unit_slope_response (weights True r) else 0)"
  using assms(4-6)
proof (induction "nat (iterations + 1 - iter)" arbitrary: iter s)
  case 0
  then have e: "iterations + 1 = iter" and d: "\<not> iter \<le> iterations" by simp_all
  show ?case unfolding e using "0.prems"(2,3) stencil_loop_done [OF d] by simp
next
  case (Suc m)
  then have le: "iter \<le> iterations" by simp
  let ?c = "unit_slope_response (weights True r)"
  let ?out = "field n (\<lambda>i j. if interior n r i j then real_of_int (iter + 1) * ?c else 0)"
  have eq: "(\<lambda>i j. if interior n r i j
             then (if interior n r i j then real_of_int iter * ?c else 0)
                  + apply_weights (weights True r) n (field n (\<lambda>i j. real_of_int (i + j) + real_of_int iter)) i j
             else (if interior n r i j then real_of_int iter * ?c else 0))
          = (\<lambda>i j. if interior n r i j then real_of_int (iter + 1) * ?c else 0)"
  proof (intro ext)
    fix i j
    show "(if interior n r i j
             then (if interior n r i j then real_of_int iter * ?c else 0)
                  + apply_weights (weights True r) n (field n (\<lambda>i j. real_of_int (i + j) + real_of_int iter)) i j
             else (if interior n r i j then real_of_int iter * ?c else 0))
          = (if interior n r i j then real_of_int (iter + 1) * ?c else 0)"
    proof (cases "interior n r i j")
      case True
      have "apply_weights (weights True r) n (field n (\<lambda>i j. real_of_int (i + j) + real_of_int iter)) i j = ?c"
        by (rule apply_weights_slope [OF r True])
      then show ?thesis using True by (simp only: if_True) (simp add: algebra_simps)
    next
      case False
      then show ?thesis by simp
    qed
  qed
  have call: "call_stencil (select_stencil True r) n t (d_in s) (d_out s) = Inr ?out"
    unfolding Suc.prems(2,3) call_stencil_field [OF r t n] eq ..
  let ?s1 = "s\<lparr>d_in := parallel_for2 n (\<lambda>i j a. a[nat (i*n+j) := a ! nat (i*n+j) + 1]) (d_in s),
              d_out := ?out,
              clock := clock s + bt iter,
              stencil_time := (if iter = 1 then clock s else stencil_time s),
              events := events s @ (if iter = 1 then [Timer_start iter] else [])
                          @ [Kernel_call iter, Perturbation iter]\<rparr>"
  have step: "stencil_loop (select_stencil True r) n t bt iterations iter s
            = stencil_loop (select_stencil True r) n t bt iterations (iter + 1) ?s1"
    by (rule stencil_loop_step [OF le call])
  have din: "d_in ?s1 = field n (\<lambda>i j. real_of_int (i + j) + real_of_int (iter + 1))"
    using parallel_for2_field [OF n, of "\<lambda>i j x. x + 1" "\<lambda>i j. real_of_int (i + j) + real_of_int iter"]
    by (simp add: Suc.prems(2) add.assoc)
  have m: "m = nat (iterations + 1 - (iter + 1))" using Suc.hyps(2) by simp
  have "iter + 1 \<le> iterations + 1" using le by simp
  from Suc.hyps(1) [OF m this din] show ?case unfolding step by simp
qed

lemma for_range_sum:
  "for_range lo hi (\<lambda>k acc. acc + f k) a = a + (\<Sum>k\<in>{lo..<hi}. f k :: real)"
proof (induction "nat (hi - lo)" arbitrary: lo a)
  case 0
  then show ?case by (simp add: for_range.simps)
next
  case (Suc m)
  then have lt: "lo < hi" by simp
  have m: "m = nat (hi - (lo + 1))" using Suc.hyps(2) by simp
  have "for_range lo hi (\<lambda>k acc. acc + f k) a = for_range (lo + 1) hi (\<lambda>k acc. acc + f k) (a + f lo)"
    using lt by (subst for_range.simps) simp
  then show ?case using Suc.hyps(1) [OF m, of "a + f lo"] by (simp add: sum_from_less [OF lt])
qed



lemma stencil_run_star:
  assumes r: "r \<in> {1..5}" and t: "0 < t" and n: "0 \<le> n" and it: "1 \<le> iterations"
  shows "\<exists>s. stencil_run (select_stencil True r) n t bt now junk iterations = Inr s \<and>
           d_in s = field n (\<lambda>i j. real_of_int (i + j) + real_of_int (iterations + 1)) \<and>
           d_out s = field n (\<lambda>i j. if interior n r i j
                       then real_of_int (iterations + 1) * unit_slope_response (weights True r) else 0) \<and>
           events s = loop_log 0 iterations @ [Timer_stop] \<and>
           stencil_time s = (\<Sum>k\<in>{1..iterations}. bt k)"
proof -
  let ?c = "unit_slope_response (weights True r)"
  let ?s0 = "\<lparr>d_in = map junk [0..<nat (n*n)], d_out = map junk [0..<nat (n*n)],
               clock = now, stencil_time = 0, events = []\<rparr>"
  let ?s1 = "?s0\<lparr>d_in := field n (\<lambda>i j. real_of_int (i+j)), d_out := field n (\<lambda>i j. 0)\<rparr>"
  have init: "initialize n ?s0 = ?s1" by (rule initialize_field [OF n]) simp_all
  have din: "d_in ?s1 = field n (\<lambda>i j. real_of_int (i + j) + real_of_int 0)" by simp
  have dout: "d_out ?s1 = field n (\<lambda>i j. if interior n r i j then real_of_int 0 * ?c else 0)"
    by (simp cong: if_cong)
  have "0 \<le> iterations + 1" using it by simp
  from stencil_loop_star [OF r t n this din dout, of bt]
  obtain s' where run: "stencil_loop (select_stencil True r) n t bt iterations 0 ?s1 = Inr s'"
    and i: "d_in s' = field n (\<lambda>i j. real_of_int (i + j) + real_of_int (iterations + 1))"
    and out: "d_out s' = field n (\<lambda>i j. if interior n r i j then real_of_int (iterations + 1) * ?c else 0)"
    by blast
  note log = stencil_loop_log [OF run]
  have "{0..iterations} = insert 0 {1..iterations}" using it by auto
  then have split: "(\<Sum>k\<in>{0..iterations}. bt k) = bt 0 + (\<Sum>k\<in>{1..iterations}. bt k)" by simp
  have "{0..<1::int} = {0}" by auto
  then have first: "(\<Sum>k\<in>{0..<1}. bt k) = bt 0" by simp
  have time: "clock s' - stencil_time s' = (\<Sum>k\<in>{1..iterations}. bt k)"
    using log it by (simp add: split first)
  show ?thesis
    unfolding stencil_run_def Let_def init run
    using i out log time by simp
qed



lemma size_t_range: "0 \<le> size_t x" "size_t x < 2 ^ 64"
  by (simp_all add: size_t_def)

lemma size_t_small: "0 \<le> x \<Longrightarrow> x < 2 ^ 64 \<Longrightarrow> size_t x = x"
  by (simp add: size_t_def)

lemma stencil_args_valid:
  assumes "stencil_args m argv = Inr c"
  shows "1 \<le> cfg_iterations c \<and> 1 \<le> cfg_n c \<and> 0 < cfg_tile_size c \<and> 1 \<le> cfg_radius c \<and>
         (cfg_radius c \<le> 5 \<longrightarrow> 2 * cfg_radius c + 1 \<le> cfg_n c)"
proof -
  define n where "n = size_t (atoi (argv ! 2))"
  define ts where "ts = size_t (atoi (argv ! 3))"
  define radius where "radius = (if length argv > 5 then size_t (atoi (argv ! 5)) else 2)"
  have ts0: "0 \<le> ts" unfolding ts_def by (rule size_t_range)
  have a: "1 \<le> atoi (argv ! 1)" "1 \<le> n" "1 \<le> radius" "size_t (2 * radius + 1) \<le> n"
    and c: "c = \<lparr>cfg_iterations = atoi (argv ! 1), cfg_n = n,
             cfg_tile_size = (if length argv > 3
                 then (if (if ts \<le> 0 then n else ts) > n then n else (if ts \<le> 0 then n else ts))
                 else 32),
             cfg_star = (if length argv > 4 then (if argv ! 4 = ''grid'' then False else True) else True),
             cfg_radius = radius\<rparr>"
    using assms unfolding stencil_args_def Let_def n_def [symmetric] ts_def [symmetric]
      radius_def [symmetric]
    by (auto split: if_splits)
  have "0 < cfg_tile_size c" using a(2) ts0 by (simp add: c)
  moreover have "2 * radius + 1 \<le> n" if "radius \<le> 5"
  proof -
    have "size_t (2 * radius + 1) = 2 * radius + 1" using a(3) that by (intro size_t_small) auto
    then show ?thesis using a(4) by simp
  qed
  ultimately show ?thesis using a by (simp add: c)
qed


lemma select_stencil_nothing:
  "\<not> (star \<and> radius \<in> {1..5}) \<Longrightarrow> select_stencil star radius = Fn_nothing"
  by (auto simp: select_stencil_def)


section \<open>The triad kernels under a launch\<close>

lemma length_triad_on [simp]: "length (triad_on S scalar A B C) = length A"
  by (simp add: triad_on_def)

lemma triad_on_nth:
  "k < length A \<Longrightarrow>
   triad_on S scalar A B C ! k = (if int k \<in> S then A ! k + (B ! k + scalar * C ! k) else A ! k)"
  by (simp add: triad_on_def)

lemma triad_on_empty: "triad_on {} scalar A B C = A"
  by (rule nth_equalityI) (simp_all add: triad_on_nth)

lemma triad_on_cong:
  assumes "\<And>k. k < length A \<Longrightarrow> int k \<in> S \<longleftrightarrow> int k \<in> T"
  shows "triad_on S scalar A B C = triad_on T scalar A B C"
  by (rule nth_equalityI) (simp_all add: triad_on_nth assms)

lemma triad_on_cell:
  assumes "0 \<le> i"
  shows "A[nat i := A ! nat i + (B ! nat i + scalar * C ! nat i)] = triad_on {i} scalar A B C"
proof (rule nth_equalityI)
  fix k assume "k < length (A[nat i := A ! nat i + (B ! nat i + scalar * C ! nat i)])"
  then have k: "k < length A" by simp
  have "int k = i \<longleftrightarrow> k = nat i" using assms by auto
  then show "A[nat i := A ! nat i + (B ! nat i + scalar * C ! nat i)] ! k = triad_on {i} scalar A B C ! k"
    using k by (auto simp: triad_on_nth nth_list_update)
qed simp

lemma triad_on_compose:
  assumes "S \<inter> T = {}"
  shows "triad_on T scalar (triad_on S scalar A B C) B C = triad_on (S \<union> T) scalar A B C"
proof (rule nth_equalityI)
  fix k assume "k < length (triad_on T scalar (triad_on S scalar A B C) B C)"
  then have k: "k < length A" by simp
  show "triad_on T scalar (triad_on S scalar A B C) B C ! k = triad_on (S \<union> T) scalar A B C ! k"
    using k assms by (auto simp: triad_on_nth)
qed simp

lemma nstream_triad_on:
  assumes "0 \<le> global_id item" "global_id item < 2 ^ 64"
  shows "nstream n scalar A B C item =
           triad_on (if global_id item < n then {global_id item} else {}) scalar A B C"
proof -
  have "size_t (item_group item * item_local_range item + item_local_id item) = global_id item"
    using assms by (simp add: global_id_def size_t_small)
  then show ?thesis using assms(1) by (simp add: nstream_def Let_def triad_on_cell triad_on_empty)
qed

lemma nstream2_loop_strided:
  assumes "0 < stride" "n + stride \<le> 2 ^ 32" "0 \<le> i"
  shows "nstream2_loop n scalar B C stride i A =
           Some (triad_on {k. i \<le> k \<and> k < n \<and> (k - i) mod stride = 0} scalar A B C)"
  using assms(3)
proof (induction "nat (n - i)" arbitrary: i A rule: less_induct)
  case less
  show ?case
  proof (cases "i < n")
    case False
    then have e: "{k. i \<le> k \<and> k < n \<and> (k - i) mod stride = 0} = {}" by auto
    show ?thesis unfolding e using False by (subst nstream2_loop.simps) (simp add: triad_on_empty)
  next
    case True
    let ?A1 = "A[nat i := A ! nat i + (B ! nat i + scalar * C ! nat i)]"
    have nx: "to_unsigned (size_t (i + stride)) = i + stride"
      using True assms(1,2) less.prems by (simp add: to_unsigned_def size_t_def)
    have m: "nat (n - (i + stride)) < nat (n - i)" using True assms(1) by simp
    have "nstream2_loop n scalar B C stride i A = nstream2_loop n scalar B C stride (i + stride) ?A1"
      using True by (subst nstream2_loop.simps) (simp add: nx)
    also have "\<dots> = Some (triad_on {k. i + stride \<le> k \<and> k < n \<and> (k - (i + stride)) mod stride = 0}
                          scalar ?A1 B C)"
      using less.hyps [OF m] less.prems assms(1) by simp
    also have "?A1 = triad_on {i} scalar A B C" using less.prems by (rule triad_on_cell)
    also have "triad_on {k. i + stride \<le> k \<and> k < n \<and> (k - (i + stride)) mod stride = 0}
                          scalar (triad_on {i} scalar A B C) B C
             = triad_on ({i} \<union> {k. i + stride \<le> k \<and> k < n \<and> (k - (i + stride)) mod stride = 0})
                          scalar A B C"
      using assms(1) by (intro triad_on_compose) auto
    also have "{i} \<union> {k. i + stride \<le> k \<and> k < n \<and> (k - (i + stride)) mod stride = 0}
             = {k. i \<le> k \<and> k < n \<and> (k - i) mod stride = 0}"
    proof -
      have a: "(k - (i + stride)) mod stride = (k - i) mod stride" for k
      proof -
        have "k - (i + stride) = (k - i) + (- 1) * stride" by simp
        then show ?thesis by (simp only: mod_mult_self1)
      qed
      have b: "i + stride \<le> k" if "i \<le> k" "k \<noteq> i" "(k - i) mod stride = 0" for k
      proof (rule ccontr)
        assume "\<not> i + stride \<le> k"
        then have "0 < k - i" "k - i < stride" using that by auto
        then have "(k - i) mod stride = k - i" by simp
        then show False using that \<open>0 < k - i\<close> by simp
      qed
      show ?thesis using True assms(1) a b by auto
    qed
    finally show ?thesis .
  qed
qed

lemma run_items_triad:
  assumes eff: "\<And>x A. x \<in> set xs \<Longrightarrow> body x A = Some (triad_on (T x) scalar A B C)"
    and disj: "\<And>x y. x \<in> set xs \<Longrightarrow> y \<in> set xs \<Longrightarrow> x \<noteq> y \<Longrightarrow> T x \<inter> T y = {}"
    and "distinct xs"
  shows "run_items body xs A = Some (triad_on (\<Union>x\<in>set xs. T x) scalar A B C)"
  using assms
proof (induction xs arbitrary: A)
  case Nil
  then show ?case by (simp add: triad_on_empty)
next
  case (Cons x xs)
  have d: "T x \<inter> (\<Union>y\<in>set xs. T y) = {}"
  proof -
    have "T x \<inter> T y = {}" if "y \<in> set xs" for y
      using Cons.prems(2) [of x y] Cons.prems(3) that by auto
    then show ?thesis by blast
  qed
  have "run_items body (x # xs) A = run_items body xs (triad_on (T x) scalar A B C)"
    using Cons.prems(1) [of x A] by simp
  also have "\<dots> = Some (triad_on (\<Union>y\<in>set xs. T y) scalar (triad_on (T x) scalar A B C) B C)"
    using Cons.prems by (intro Cons.IH) auto
  also have "\<dots> = Some (triad_on (T x \<union> (\<Union>y\<in>set xs. T y)) scalar A B C)"
    by (simp add: triad_on_compose [OF d])
  finally show ?case by simp
qed

lemma set_work_items:
  "set (work_items groups local) =
     {\<lparr>item_group = g, item_local_range = local, item_local_id = l, item_group_range = groups\<rparr>
        | g l. 0 \<le> g \<and> g < groups \<and> 0 \<le> l \<and> l < local}"
  unfolding work_items_def by auto

lemma global_id_range:
  assumes "x \<in> set (work_items groups local)"
  shows "0 \<le> global_id x \<and> global_id x < groups * local \<and>
         item_local_range x = local \<and> item_group_range x = groups"
proof -
  obtain g l where x: "x = \<lparr>item_group = g, item_local_range = local, item_local_id = l,
                           item_group_range = groups\<rparr>"
    and r: "0 \<le> g" "g < groups" "0 \<le> l" "l < local"
    using assms unfolding set_work_items by blast
  have "g + 1 \<le> groups" using r by simp
  then have "(g + 1) * local \<le> groups * local" using r by (intro mult_right_mono) auto
  then have "g * local + l < groups * local" using r by (simp add: algebra_simps)
  then show ?thesis using r by (simp add: x global_id_def)
qed

lemma global_id_inj:
  assumes "x \<in> set (work_items groups local)" "y \<in> set (work_items groups local)"
    and "global_id x = global_id y"
  shows "x = y"
proof -
  obtain g l where x: "x = \<lparr>item_group = g, item_local_range = local, item_local_id = l,
                           item_group_range = groups\<rparr>"
    and r: "0 \<le> g" "g < groups" "0 \<le> l" "l < local"
    using assms(1) unfolding set_work_items by blast
  obtain g' l' where y: "y = \<lparr>item_group = g', item_local_range = local, item_local_id = l',
                           item_group_range = groups\<rparr>"
    and r': "0 \<le> g'" "g' < groups" "0 \<le> l'" "l' < local"
    using assms(2) unfolding set_work_items by blast
  have e: "g * local + l = g' * local + l'" using assms(3) by (simp add: x y global_id_def)
  have "(g * local + l) div local = g" "(g * local + l) mod local = l" using r by simp_all
  moreover have "(g' * local + l') div local = g'" "(g' * local + l') mod local = l'" using r' by simp_all
  ultimately show ?thesis using e by (simp add: x y)
qed

lemma global_id_onto:
  assumes "0 \<le> k" "k < groups * local" "0 < local"
  shows "\<exists>x\<in>set (work_items groups local). global_id x = k"
proof -
  let ?x = "\<lparr>item_group = k div local, item_local_range = local, item_local_id = k mod local,
             item_group_range = groups\<rparr>"
  have "k div local < groups"
  proof (rule ccontr)
    assume "\<not> k div local < groups"
    then have "groups * local \<le> (k div local) * local" using assms(3) by (intro mult_right_mono) auto
    moreover have "(k div local) * local \<le> k"
    proof -
      have "(k div local) * local + k mod local = k" by simp
      moreover have "0 \<le> k mod local" using assms(3) by simp
      ultimately show ?thesis by linarith
    qed
    ultimately show False using assms(2) by linarith
  qed
  moreover have "0 \<le> k div local" using assms by (simp add: pos_imp_zdiv_nonneg_iff)
  moreover have "0 \<le> k mod local" "k mod local < local" using assms(3) by simp_all
  ultimately have "?x \<in> set (work_items groups local)" unfolding set_work_items by blast
  moreover have "global_id ?x = k" by (simp add: global_id_def)
  ultimately show ?thesis by blast
qed

lemma distinct_work_items:
  assumes "0 < local"
  shows "distinct (work_items groups local)"
proof -
  let ?item = "\<lambda>g l. \<lparr>item_group = g, item_local_range = local, item_local_id = l,
                     item_group_range = groups\<rparr>"
  let ?row = "\<lambda>g. map (?item g) [0..local - 1]"
  have ne: "[0..local - 1] = 0 # [0 + 1..local - 1]" using assms by (intro upto_rec1) simp
  have inj: "inj_on ?row (set [0..groups - 1])"
  proof (rule inj_onI)
    fix g g' assume "?row g = ?row g'"
    then have "(\<exists>x\<ge>0. x < local) \<longrightarrow> g = g'" by simp
    moreover have "\<exists>x\<ge>0. x < local" using assms by (intro exI [of _ 0]) simp
    ultimately show "g = g'" by blast
  qed
  have "distinct (map ?row [0..groups - 1])" using inj by (simp add: distinct_map)
  moreover have "distinct ys" if "ys \<in> set (map ?row [0..groups - 1])" for ys
    using that by (auto simp: distinct_map inj_on_def)
  moreover have "set ys \<inter> set zs = {}"
    if "ys \<in> set (map ?row [0..groups - 1])" "zs \<in> set (map ?row [0..groups - 1])" "ys \<noteq> zs" for ys zs
    using that by auto
  ultimately show ?thesis unfolding work_items_def by (rule distinct_concat)
qed

lemma run_direct:
  assumes l: "0 < local" and cover: "n \<le> groups * local" and sz: "groups * local \<le> 2 ^ 64"
    and sched: "distinct sched" "set sched = set (work_items groups local)"
  shows "run_items (\<lambda>item A. Some (nstream n scalar A B C item)) sched A
       = Some (triad_on {0..<n} scalar A B C)"
proof -
  let ?T = "\<lambda>x. if global_id x < n then {global_id x} else {}"
  have eff: "Some (nstream n scalar A B C x) = Some (triad_on (?T x) scalar A B C)"
    if "x \<in> set sched" for x A
  proof -
    have "0 \<le> global_id x" "global_id x < 2 ^ 64"
      using global_id_range [of x groups local] that sched(2) sz by auto
    then show ?thesis by (simp only: nstream_triad_on)
  qed
  have disj: "?T x \<inter> ?T y = {}" if "x \<in> set sched" "y \<in> set sched" "x \<noteq> y" for x y
    using global_id_inj [of x groups local y] that sched(2) by auto
  have un: "(\<Union>x\<in>set sched. ?T x) = {0..<n}"
  proof (intro set_eqI iffI)
    fix k assume "k \<in> (\<Union>x\<in>set sched. ?T x)"
    then obtain x where x: "x \<in> set sched" and kx: "k \<in> ?T x" by (rule UN_E)
    have "0 \<le> global_id x" using global_id_range [of x groups local] x sched(2) by simp
    moreover have "k = global_id x \<and> global_id x < n" using kx by (simp split: if_splits)
    ultimately show "k \<in> {0..<n}" by simp
  next
    fix k assume k: "k \<in> {0..<n}"
    then have "0 \<le> k" "k < groups * local" using cover by auto
    then obtain x where x: "x \<in> set (work_items groups local)" "global_id x = k"
      using global_id_onto [of k groups local] l by blast
    have "k \<in> ?T x" using k x(2) by simp
    moreover have "x \<in> set sched" using x(1) sched(2) by simp
    ultimately show "k \<in> (\<Union>x\<in>set sched. ?T x)" by (rule UN_I [rotated])
  qed
  show ?thesis
    using run_items_triad [of sched "\<lambda>item A. Some (nstream n scalar A B C item)" ?T scalar B C A,
        OF eff disj sched(1)]
    unfolding un by simp
qed

lemma run_strided:
  assumes l: "0 < local" and g: "0 < groups" and nowrap: "n + groups * local \<le> 2 ^ 32"
    and n: "0 \<le> n"
    and sched: "distinct sched" "set sched = set (work_items groups local)"
  shows "run_items (\<lambda>item A. nstream2 n scalar A B C item) sched A
       = Some (triad_on {0..<n} scalar A B C)"
proof -
  let ?s = "groups * local"
  let ?T = "\<lambda>x. {k. global_id x \<le> k \<and> k < n \<and> (k - global_id x) mod ?s = 0}"
  have s0: "0 < ?s" using l g by simp
  have s32: "?s \<le> 2 ^ 32" using nowrap n by simp
  have eff: "nstream2 n scalar A B C x = Some (triad_on (?T x) scalar A B C)"
    if "x \<in> set sched" for x A
  proof -
    note r = global_id_range [of x groups local]
    have gid: "0 \<le> global_id x" "global_id x < ?s" and lr: "item_local_range x = local"
      and gr: "item_group_range x = groups"
      using r that sched(2) by auto
    have st: "size_t (item_local_range x * item_group_range x) = ?s"
      using s0 s32 by (simp add: lr gr size_t_def mult.commute)
    have "size_t (item_group x * item_local_range x + item_local_id x) = global_id x"
      using gid s32 by (simp add: global_id_def size_t_def)
    moreover have "to_unsigned (global_id x) = global_id x"
      using gid s32 by (simp add: to_unsigned_def)
    ultimately have "nstream2 n scalar A B C x = nstream2_loop n scalar B C ?s (global_id x) A"
      by (simp add: nstream2_def st)
    then show ?thesis using nstream2_loop_strided [OF s0 nowrap gid(1)] by simp
  qed
  have disj: "?T x \<inter> ?T y = {}" if "x \<in> set sched" "y \<in> set sched" "x \<noteq> y" for x y
  proof (rule equals0I)
    fix k assume "k \<in> ?T x \<inter> ?T y"
    then have kx: "k \<in> ?T x" and ky: "k \<in> ?T y" by (rule IntD1, rule IntD2)
    have rx: "0 \<le> global_id x" "global_id x < ?s" and ry: "0 \<le> global_id y" "global_id y < ?s"
      using global_id_range [of x groups local] global_id_range [of y groups local] that sched(2)
      by auto
    have dx: "?s dvd k - global_id x" and dy: "?s dvd k - global_id y"
      using kx ky by (simp_all add: dvd_eq_mod_eq_0)
    have "k mod ?s = global_id x mod ?s" using dx by (simp only: mod_eq_dvd_iff)
    moreover have "k mod ?s = global_id y mod ?s" using dy by (simp only: mod_eq_dvd_iff)
    ultimately have "global_id x = global_id y" using rx ry by simp
    then show False using global_id_inj [of x groups local y] that sched(2) by auto
  qed
  have un: "(\<Union>x\<in>set sched. ?T x) = {0..<n}"
  proof (intro set_eqI iffI)
    fix k assume "k \<in> (\<Union>x\<in>set sched. ?T x)"
    then obtain x where x: "x \<in> set sched" and kx: "k \<in> ?T x" by (rule UN_E)
    have "0 \<le> global_id x" using global_id_range [of x groups local] x sched(2) by simp
    moreover have "global_id x \<le> k" "k < n" using kx by simp_all
    ultimately show "k \<in> {0..<n}" by simp
  next
    fix k assume k: "k \<in> {0..<n}"
    have "0 \<le> k mod ?s" "k mod ?s < ?s" using s0 by simp_all
    then obtain x where x: "x \<in> set (work_items groups local)" "global_id x = k mod ?s"
      using global_id_onto [of "k mod ?s" groups local] l by blast
    have "0 \<le> k" "k < n" using k by simp_all
    have dm: "(k div ?s) * ?s + k mod ?s = k" by (rule div_mult_mod_eq)
    have "0 \<le> k div ?s" using \<open>0 \<le> k\<close> s0 by (simp add: pos_imp_zdiv_nonneg_iff)
    then have "0 \<le> (k div ?s) * ?s" using s0 by simp
    then have "k mod ?s \<le> k" using dm by linarith
    moreover have "(k - k mod ?s) mod ?s = 0"
    proof -
      have "k - k mod ?s = (k div ?s) * ?s" using dm by linarith
      then show ?thesis by (simp only: mod_mult_self2_is_0)
    qed
    ultimately have "k \<in> ?T x" using \<open>k < n\<close> x(2) by simp
    moreover have "x \<in> set sched" using x(1) sched(2) by simp
    ultimately show "k \<in> (\<Union>x\<in>set sched. ?T x)" by (rule UN_I [rotated])
  qed
  show ?thesis
    using run_items_triad [of sched "\<lambda>item A. nstream2 n scalar A B C item" ?T scalar B C A,
        OF eff disj sched(1)]
    unfolding un by simp
qed


section \<open>The triad driver: launches, loop and checksums\<close>

lemma divceil_256:
  assumes "0 < len" "len < 2 ^ 31"
  shows "0 < divceil len 256" "len \<le> divceil len 256 * 256" "divceil len 256 * 256 \<le> 2 ^ 31"
proof -
  let ?q = "(len + 255) div 256"
  have dm: "?q * 256 + (len + 255) mod 256 = len + 255" by (rule div_mult_mod_eq)
  have m: "0 \<le> (len + 255) mod 256" "(len + 255) mod 256 < 256" by simp_all
  have "256 div 256 \<le> ?q" using assms(1) by (intro zdiv_mono1) simp_all
  then show "0 < divceil len 256" by (simp add: divceil_def)
  show "len \<le> divceil len 256 * 256" using dm m by (simp add: divceil_def)
  have "?q \<le> (2 ^ 31 + 254) div 256" using assms(2) by (intro zdiv_mono1) simp_all
  then have "?q \<le> 2 ^ 23" by simp
  then show "divceil len 256 * 256 \<le> 2 ^ 31" by (simp add: divceil_def)
qed

lemma launch_triad:
  assumes "0 < len" "len < 2 ^ 31"
  shows "launch grid_stride len scalar A B C = Some (triad_on {0..<len} scalar A B C)"
proof -
  note d = divceil_256 [OF assms]
  have u: "to_unsigned len = len" using assms by (simp add: to_unsigned_def)
  have l: "(0::int) < 256" by simp
  have c1: "divceil len 256 * 256 \<le> 2 ^ 64" using d(3) by simp
  have c2: "len + divceil len 256 * 256 \<le> 2 ^ 32" using d(3) assms(2) by simp
  have n0: "0 \<le> len" using assms(1) by simp
  have dist: "distinct (work_items (divceil len 256) 256)" by (rule distinct_work_items) simp
  show ?thesis
  proof (cases grid_stride)
    case True
    then show ?thesis
      unfolding launch_def Let_def u
      using run_strided [OF l d(1) c2 n0 dist refl, where scalar = scalar and A = A and B = B and C = C]
      by simp
  next
    case False
    then show ?thesis
      unfolding launch_def Let_def u
      using run_direct [OF l d(2) c1 dist refl, where scalar = scalar and A = A and B = B and C = C]
      by simp
  qed
qed

lemma triad_on_replicate:
  assumes "0 \<le> len"
  shows "triad_on {0..<len} (3::real) (replicate (nat len) x) (replicate (nat len) 2) (replicate (nat len) 2)
       = replicate (nat len) (x + 8)"
proof (rule nth_equalityI)
  fix k assume "k < length (triad_on {0..<len} (3::real) (replicate (nat len) x)
      (replicate (nat len) 2) (replicate (nat len) 2))"
  then have k: "k < nat len" by simp
  then have "int k \<in> {0..<len}" by auto
  then show "triad_on {0..<len} (3::real) (replicate (nat len) x) (replicate (nat len) 2)
      (replicate (nat len) 2) ! k = replicate (nat len) (x + 8) ! k"
    using k by (simp add: triad_on_nth)
qed simp

lemma nstream_loop_done:
  "\<not> iter \<le> iterations \<Longrightarrow>
   nstream_loop grid_stride len scalar B C bt iterations iter s = Inr s"
  by (subst nstream_loop.simps) simp

lemma nstream_loop_fail:
  assumes "iter \<le> iterations" "launch grid_stride len scalar (d_A s) B C = None"
  shows "nstream_loop grid_stride len scalar B C bt iterations iter s = Inl No_return"
  using assms by (subst nstream_loop.simps) (simp add: Let_def)

lemma nstream_loop_step:
  assumes "iter \<le> iterations" "launch grid_stride len scalar (d_A s) B C = Some A"
  shows "nstream_loop grid_stride len scalar B C bt iterations iter s =
         nstream_loop grid_stride len scalar B C bt iterations (iter + 1)
           (s\<lparr>d_A := A,
              triad_clock := triad_clock s + bt iter,
              nstream_time := (if iter = 1 then triad_clock s else nstream_time s),
              triad_events := triad_events s @ (if iter = 1 then [Timer_start iter] else [])
                                @ [Kernel_call iter]\<rparr>)"
  using assms by (subst nstream_loop.simps) (cases s, simp add: Let_def)

lemma triad_log_step:
  assumes "iter \<le> iterations"
  shows "triad_log iter iterations =
     (if iter = 1 then [Timer_start iter] else []) @ [Kernel_call iter] @ triad_log (iter + 1) iterations"
proof -
  have "[iter..iterations] = iter # [iter + 1..iterations]" using assms by (rule upto_rec1)
  then show ?thesis unfolding triad_log_def by (simp only: list.map concat.simps append_assoc)
qed

lemma triad_log_done: "\<not> iter \<le> iterations \<Longrightarrow> triad_log iter iterations = []"
  by (simp add: triad_log_def)

lemma nstream_loop_log:
  assumes "nstream_loop grid_stride len scalar B C bt iterations iter s = Inr s'"
  shows "triad_events s' = triad_events s @ triad_log iter iterations \<and>
         triad_clock s' = triad_clock s + (\<Sum>k\<in>{iter..iterations}. bt k) \<and>
         nstream_time s' = (if iter \<le> 1 \<and> 1 \<le> iterations
                            then triad_clock s + (\<Sum>k\<in>{iter..<1}. bt k) else nstream_time s)"
  using assms
proof (induction "nat (iterations + 1 - iter)" arbitrary: iter s)
  case 0
  then have "\<not> iter \<le> iterations" by simp
  then show ?case using "0.prems" by (auto simp: nstream_loop_done triad_log_done)
next
  case (Suc m)
  then have le: "iter \<le> iterations" by simp
  show ?case
  proof (cases "launch grid_stride len scalar (d_A s) B C")
    case None
    then show ?thesis using Suc.prems nstream_loop_fail [OF le None] by simp
  next
    case (Some A)
    let ?s1 = "s\<lparr>d_A := A,
              triad_clock := triad_clock s + bt iter,
              nstream_time := (if iter = 1 then triad_clock s else nstream_time s),
              triad_events := triad_events s @ (if iter = 1 then [Timer_start iter] else [])
                                @ [Kernel_call iter]\<rparr>"
    have run: "nstream_loop grid_stride len scalar B C bt iterations (iter + 1) ?s1 = Inr s'"
      using Suc.prems nstream_loop_step [OF le Some] by simp
    have m: "m = nat (iterations + 1 - (iter + 1))" using Suc.hyps(2) by simp
    note ih = Suc.hyps(1) [OF m run]
    have e: "triad_events s' = triad_events s @ triad_log iter iterations"
      using ih by (simp add: triad_log_step [OF le])
    have c: "triad_clock s' = triad_clock s + (\<Sum>k\<in>{iter..iterations}. bt k)"
      using ih by (simp add: sum_from [OF le])
    have st: "nstream_time s' = (if iter \<le> 1 \<and> 1 \<le> iterations
                            then triad_clock s + (\<Sum>k\<in>{iter..<1}. bt k) else nstream_time s)"
    proof (cases "iter < 1")
      case True
      then show ?thesis using ih le by (simp add: sum_from_less [OF True])
    next
      case False
      then show ?thesis using ih le by (cases "iter = 1") auto
    qed
    show ?thesis using e c st by simp
  qed
qed

lemma nstream_loop_data:
  assumes len: "0 < len" "len < 2 ^ 31"
    and "iter \<le> iterations + 1"
    and "d_A s = replicate (nat len) (8 * real_of_int iter)"
  shows "\<exists>s'. nstream_loop grid_stride len 3 (replicate (nat len) 2) (replicate (nat len) 2)
                 bt iterations iter s = Inr s' \<and>
              d_A s' = replicate (nat len) (8 * real_of_int (iterations + 1))"
  using assms(3,4)
proof (induction "nat (iterations + 1 - iter)" arbitrary: iter s)
  case 0
  then have e: "iterations + 1 = iter" and d: "\<not> iter \<le> iterations" by simp_all
  show ?case unfolding e using "0.prems"(2) nstream_loop_done [OF d] by simp
next
  case (Suc m)
  then have le: "iter \<le> iterations" by simp
  let ?B = "replicate (nat len) (2::real)"
  let ?A1 = "replicate (nat len) (8 * real_of_int (iter + 1))"
  have n0: "0 \<le> len" using len(1) by simp
  have "launch grid_stride len 3 (d_A s) ?B ?B
      = Some (triad_on {0..<len} 3 (replicate (nat len) (8 * real_of_int iter)) ?B ?B)"
    unfolding Suc.prems(2) by (rule launch_triad [OF len])
  also have "\<dots> = Some ?A1" by (simp add: triad_on_replicate [OF n0] algebra_simps)
  finally have la: "launch grid_stride len 3 (d_A s) ?B ?B = Some ?A1" .
  let ?s1 = "s\<lparr>d_A := ?A1,
              triad_clock := triad_clock s + bt iter,
              nstream_time := (if iter = 1 then triad_clock s else nstream_time s),
              triad_events := triad_events s @ (if iter = 1 then [Timer_start iter] else [])
                                @ [Kernel_call iter]\<rparr>"
  have step: "nstream_loop grid_stride len 3 ?B ?B bt iterations iter s
            = nstream_loop grid_stride len 3 ?B ?B bt iterations (iter + 1) ?s1"
    by (rule nstream_loop_step [OF le la])
  have m: "m = nat (iterations + 1 - (iter + 1))" using Suc.hyps(2) by simp
  have "iter + 1 \<le> iterations + 1" using le by simp
  moreover have "d_A ?s1 = ?A1" by simp
  ultimately show ?case using Suc.hyps(1) [OF m] unfolding step by blast
qed

lemma nstream_run_ok:
  assumes len: "0 < len" "len < 2 ^ 31" and it: "1 \<le> iterations"
  shows "\<exists>s. nstream_run grid_stride len bt now iterations = Inr s \<and>
           d_A s = replicate (nat len) (8 * real_of_int (iterations + 1)) \<and>
           triad_events s = triad_log 0 iterations @ [Timer_stop] \<and>
           nstream_time s = (\<Sum>k\<in>{1..iterations}. bt k)"
proof -
  let ?s0 = "\<lparr>d_A = replicate (nat len) 0, triad_clock = now, nstream_time = 0, triad_events = []\<rparr>"
  have a0: "d_A ?s0 = replicate (nat len) (8 * real_of_int 0)" by simp
  have "0 \<le> iterations + 1" using it by simp
  from nstream_loop_data [OF len this a0, of grid_stride bt]
  obtain s' where run: "nstream_loop grid_stride len 3 (replicate (nat len) 2) (replicate (nat len) 2)
                 bt iterations 0 ?s0 = Inr s'"
    and a: "d_A s' = replicate (nat len) (8 * real_of_int (iterations + 1))" by blast
  note log = nstream_loop_log [OF run]
  have "{0..iterations} = insert 0 {1..iterations}" using it by auto
  then have split: "(\<Sum>k\<in>{0..iterations}. bt k) = bt 0 + (\<Sum>k\<in>{1..iterations}. bt k)" by simp
  have "{0..<1::int} = {0}" by auto
  then have first: "(\<Sum>k\<in>{0..<1}. bt k) = bt 0" by simp
  have time: "triad_clock s' - nstream_time s' = (\<Sum>k\<in>{1..iterations}. bt k)"
    using log it by (simp add: split first)
  show ?thesis
    unfolding nstream_run_def Let_def run
    using a log time by simp
qed

lemma expected_checksum_eq:
  "expected_checksum iterations len = real_of_int len * (\<Sum>k\<in>{0..iterations}. 2 + 3 * 2)"
proof -
  have "{0..<iterations + 1} = {0..iterations}" by auto
  then show ?thesis
    unfolding expected_checksum_def Let_def for_range_sum by simp
qed

lemma expected_checksum_value:
  "0 \<le> iterations + 1 \<Longrightarrow> expected_checksum iterations len = 8 * real_of_int (iterations + 1) * real_of_int len"
  by (simp add: expected_checksum_eq)

lemma observed_checksum_eq:
  "observed_checksum len h_A = (\<Sum>i\<in>{0..<len}. \<bar>h_A ! nat i\<bar>)"
  unfolding observed_checksum_def for_range_sum by simp

lemma observed_checksum_replicate:
  assumes "0 \<le> len"
  shows "observed_checksum len (replicate (nat len) x) = real_of_int len * \<bar>x\<bar>"
proof -
  have "(\<Sum>i\<in>{0..<len}. \<bar>replicate (nat len) x ! nat i\<bar>) = (\<Sum>i\<in>{0..<len}. \<bar>x\<bar>)"
    by (intro sum.cong refl) auto
  then show ?thesis using assms by (simp add: observed_checksum_eq)
qed

lemma loop_log_from_2:
  assumes "2 \<le> a"
  shows "loop_log a b = concat (map (\<lambda>k. [Kernel_call k, Perturbation k]) [a..b])"
  unfolding loop_log_def
  by (rule arg_cong [where f = concat], rule map_cong) (use assms in auto)

lemma loop_log_explicit:
  assumes "1 \<le> iterations"
  shows "loop_log 0 iterations =
           [Kernel_call 0, Perturbation 0, Timer_start 1]
           @ concat (map (\<lambda>k. [Kernel_call k, Perturbation k]) [1..iterations])"
proof -
  have 0: "loop_log 0 iterations = [Kernel_call 0, Perturbation 0] @ loop_log 1 iterations"
    using loop_log_step [of 0 iterations] assms by simp
  have 1: "loop_log 1 iterations = [Timer_start 1, Kernel_call 1, Perturbation 1] @ loop_log 2 iterations"
    using loop_log_step [of 1 iterations] assms by simp
  have 2: "[1..iterations] = 1 # [2..iterations]" using upto_rec1 [of 1 iterations] assms by simp
  show ?thesis unfolding 0 1 2 loop_log_from_2 [of 2 iterations, simplified] by simp
qed

lemma loop_log_counts:
  "length (filter is_kernel_call (loop_log a b)) = nat (b + 1 - a) \<and>
   length (filter is_perturbation (loop_log a b)) = nat (b + 1 - a)"
proof (induction "nat (b + 1 - a)" arbitrary: a)
  case 0
  then have "\<not> a \<le> b" by simp
  then show ?case by (simp add: loop_log_done)
next
  case (Suc m)
  then have le: "a \<le> b" by simp
  have m: "m = nat (b + 1 - (a + 1))" using Suc.hyps(2) by simp
  show ?case
    using Suc.hyps(1) [OF m] Suc.hyps(2) unfolding loop_log_step [OF le]
    by (simp add: is_kernel_call_def is_perturbation_def)
qed

lemma triad_log_from_2:
  assumes "2 \<le> a"
  shows "triad_log a b = map Kernel_call [a..b]"
proof -
  have "triad_log a b = concat (map (\<lambda>k. [Kernel_call k]) [a..b])"
    unfolding triad_log_def
    by (rule arg_cong [where f = concat], rule map_cong) (use assms in auto)
  also have "\<dots> = map Kernel_call [a..b]" by (induction "[a..b]" arbitrary: a) auto
  finally show ?thesis .
qed

lemma triad_log_explicit:
  assumes "1 \<le> iterations"
  shows "triad_log 0 iterations = [Kernel_call 0, Timer_start 1] @ map Kernel_call [1..iterations]"
proof -
  have 0: "triad_log 0 iterations = [Kernel_call 0] @ triad_log 1 iterations"
    using triad_log_step [of 0 iterations] assms by simp
  have 1: "triad_log 1 iterations = [Timer_start 1, Kernel_call 1] @ triad_log 2 iterations"
    using triad_log_step [of 1 iterations] assms by simp
  have 2: "[1..iterations] = 1 # [2..iterations]" using upto_rec1 [of 1 iterations] assms by simp
  show ?thesis unfolding 0 1 2 triad_log_from_2 [of 2 iterations, simplified] by simp
qed

lemma triad_log_counts:
  "length (filter is_kernel_call (triad_log a b)) = nat (b + 1 - a)"
proof (induction "nat (b + 1 - a)" arbitrary: a)
  case 0
  then have "\<not> a \<le> b" by simp
  then show ?case by (simp add: triad_log_done)
next
  case (Suc m)
  then have le: "a \<le> b" by simp
  have m: "m = nat (b + 1 - (a + 1))" using Suc.hyps(2) by simp
  show ?case
    using Suc.hyps(1) [OF m] Suc.hyps(2) unfolding triad_log_step [OF le]
    by (simp add: is_kernel_call_def)
qed

lemma stencil_run_log:
  assumes "stencil_run stencil n t bt now junk iterations = Inr s" "1 \<le> iterations"
  shows "events s = loop_log 0 iterations @ [Timer_stop] \<and>
         stencil_time s = (\<Sum>k\<in>{1..iterations}. bt k)"
proof -
  let ?s0 = "initialize n \<lparr>d_in = map junk [0..<nat (n*n)], d_out = map junk [0..<nat (n*n)],
               clock = now, stencil_time = 0, events = []\<rparr>"
  obtain s' where run: "stencil_loop stencil n t bt iterations 0 ?s0 = Inr s'"
    and s: "s = s'\<lparr>stencil_time := clock s' - stencil_time s', events := events s' @ [Timer_stop]\<rparr>"
    using assms(1) unfolding stencil_run_def Let_def by (auto split: sum.splits)
  have i: "events ?s0 = []" "clock ?s0 = now"
    by (simp_all add: initialize_d_in_out)
  note log = stencil_loop_log [OF run]
  have "{0..iterations} = insert 0 {1..iterations}" using assms(2) by auto
  then have split: "(\<Sum>k\<in>{0..iterations}. bt k) = bt 0 + (\<Sum>k\<in>{1..iterations}. bt k)" by simp
  have "{0..<1::int} = {0}" by auto
  then have first: "(\<Sum>k\<in>{0..<1}. bt k) = bt 0" by simp
  show ?thesis using log assms(2) by (simp add: s i split first)
qed

lemma nstream_run_log:
  assumes "nstream_run grid_stride len bt now iterations = Inr s" "1 \<le> iterations"
  shows "triad_events s = triad_log 0 iterations @ [Timer_stop] \<and>
         nstream_time s = (\<Sum>k\<in>{1..iterations}. bt k)"
proof -
  let ?s0 = "\<lparr>d_A = replicate (nat len) 0, triad_clock = now, nstream_time = 0, triad_events = []\<rparr>"
  obtain s' where run: "nstream_loop grid_stride len 3 (replicate (nat len) 2) (replicate (nat len) 2)
                 bt iterations 0 ?s0 = Inr s'"
    and s: "s = s'\<lparr>nstream_time := triad_clock s' - nstream_time s',
                   triad_events := triad_events s' @ [Timer_stop]\<rparr>"
    using assms(1) unfolding nstream_run_def Let_def by (auto split: sum.splits)
  note log = nstream_loop_log [OF run]
  have "{0..iterations} = insert 0 {1..iterations}" using assms(2) by auto
  then have split: "(\<Sum>k\<in>{0..iterations}. bt k) = bt 0 + (\<Sum>k\<in>{1..iterations}. bt k)" by simp
  have "{0..<1::int} = {0}" by auto
  then have first: "(\<Sum>k\<in>{0..<1}. bt k) = bt 0" by simp
  show ?thesis using log assms(2) by (simp add: s split first)
qed

lemma nstream_args_valid:
  assumes "nstream_args pb argv = Inr c"
  shows "1 \<le> arg_iterations c \<and> 0 < arg_length c"
  using assms unfolding nstream_args_def Let_def
  by (auto split: if_splits option.splits)

lemma stencil_main_validated:
  assumes "stencil_main m bt now junk argv = Validated a"
  shows "\<exists>c. stencil_args m argv = Inr c \<and>
             a = (\<Sum>k\<in>{1..cfg_iterations c}. bt k) / real_of_int (cfg_iterations c)"
proof -
  obtain c s where c: "stencil_args m argv = Inr c"
    and run: "stencil_run (select_stencil (cfg_star c) (cfg_radius c)) (cfg_n c) (cfg_tile_size c)
                bt now junk (cfg_iterations c) = Inr s"
    and v: "stencil_verify (cfg_iterations c) (cfg_n c) (cfg_radius c) (d_out s) (stencil_time s)
              = Validated a"
    using assms unfolding stencil_main_def by (auto split: sum.splits)
  have it: "1 \<le> cfg_iterations c" using stencil_args_valid [OF c] by simp
  have "a = stencil_time s / real_of_int (cfg_iterations c)"
    using v unfolding stencil_verify_def Let_def by (auto split: if_splits)
  then show ?thesis using c stencil_run_log [OF run it] by simp
qed

lemma nstream_main_validated:
  assumes "nstream_main pb bt now argv = Validated a"
  shows "\<exists>c. nstream_args pb argv = Inr c \<and>
             a = (\<Sum>k\<in>{1..arg_iterations c}. bt k) / real_of_int (arg_iterations c)"
proof -
  obtain c s where c: "nstream_args pb argv = Inr c"
    and run: "nstream_run (arg_grid_stride c) (arg_length c) bt now (arg_iterations c) = Inr s"
    and v: "nstream_verify (arg_iterations c) (arg_length c) (d_A s) (nstream_time s) = Validated a"
    using assms unfolding nstream_main_def by (auto split: sum.splits)
  have it: "1 \<le> arg_iterations c" using nstream_args_valid [OF c] by simp
  have "a = nstream_time s / real_of_int (arg_iterations c)"
    using v unfolding nstream_verify_def Let_def by (auto split: if_splits)
  then show ?thesis using c nstream_run_log [OF run it] by simp
qed


section \<open>Properties of the stencil kernels and their tables\<close>

text \<open>
  Claim C8. For every radius 1..5 and both shapes, every grid dimension \<open>n\<close>, tile size
  \<open>t > 0\<close> and buffers of \<open>n*n\<close> cells, one invocation of the kernel returns; it leaves
  every cell of \<open>out\<close> within \<open>r\<close> of an edge as it was and adds the weighted sum of the
  table to the value the cell already holds in every interior cell. Hence \<open>m\<close> invocations
  on the same input add \<open>m\<close> times the weighted sum: the output grows additively.
\<close>

theorem stencil_frame_and_accumulation:
  assumes "r \<in> {1..5}" "0 < t" "length out = nat (n*n)"
  shows "(\<exists>out'. vector_kernel star r n t inp out = Some out' \<and> length out' = length out \<and>
            (\<forall>i j. 0 \<le> i \<and> i < n \<and> 0 \<le> j \<and> j < n \<longrightarrow>
               out' ! nat (i*n+j) =
                 (if r \<le> i \<and> i < n - r \<and> r \<le> j \<and> j < n - r
                  then out ! nat (i*n+j) + apply_weights (weights star r) n inp i j
                  else out ! nat (i*n+j)))) \<and>
         (\<exists>out'. apply_times m (vector_kernel star r n t inp) out = Some out' \<and>
            length out' = length out \<and>
            (\<forall>i j. 0 \<le> i \<and> i < n \<and> 0 \<le> j \<and> j < n \<longrightarrow>
               out' ! nat (i*n+j) =
                 (if r \<le> i \<and> i < n - r \<and> r \<le> j \<and> j < n - r
                  then out ! nat (i*n+j) + real m * apply_weights (weights star r) n inp i j
                  else out ! nat (i*n+j))))"
proof (rule conjI)
  obtain out' where "vector_kernel star r n t inp out = Some out'"
    and "adds_on n (apply_weights (weights star r) n inp) ({r..<n - r} \<times> {r..<n - r}) out out'"
    using vector_kernel_adds [OF assms] by blast
  then show "\<exists>out'. vector_kernel star r n t inp out = Some out' \<and> length out' = length out \<and>
            (\<forall>i j. 0 \<le> i \<and> i < n \<and> 0 \<le> j \<and> j < n \<longrightarrow>
               out' ! nat (i*n+j) =
                 (if r \<le> i \<and> i < n - r \<and> r \<le> j \<and> j < n - r
                  then out ! nat (i*n+j) + apply_weights (weights star r) n inp i j
                  else out ! nat (i*n+j)))"
    using assms(3) by (simp add: adds_on_def)
next
  obtain out' where "apply_times m (vector_kernel star r n t inp) out = Some out'"
    and "adds_on n (\<lambda>i j. real m * apply_weights (weights star r) n inp i j)
           ({r..<n - r} \<times> {r..<n - r}) out out'"
    using apply_times_adds [of n "vector_kernel star r n t inp" "apply_weights (weights star r) n inp"
        "{r..<n - r} \<times> {r..<n - r}" out m]
      vector_kernel_adds [OF assms(1,2)] assms(3) by blast
  then show "\<exists>out'. apply_times m (vector_kernel star r n t inp) out = Some out' \<and>
            length out' = length out \<and>
            (\<forall>i j. 0 \<le> i \<and> i < n \<and> 0 \<le> j \<and> j < n \<longrightarrow>
               out' ! nat (i*n+j) =
                 (if r \<le> i \<and> i < n - r \<and> r \<le> j \<and> j < n - r
                  then out ! nat (i*n+j) + real m * apply_weights (weights star r) n inp i j
                  else out ! nat (i*n+j)))"
    using assms(3) by (simp add: adds_on_def)
qed

theorem stencil_frame_and_accumulation_witness:
  "(3::int) \<in> {1..5} \<and> (0::int) < 2 \<and> length (replicate 49 (1::real)) = nat (7*7) \<and>
   (\<exists>out'. star3 7 2 (map (\<lambda>k. real (k div 7 + k mod 7)) [0..<49]) (replicate 49 1) = Some out' \<and>
      out' ! 24 = 1 + 2.0000000000016 \<and> out' ! 23 = 1 \<and> out' ! 0 = 1)"
proof -
  let ?inp = "map (\<lambda>k. real (k div 7 + k mod 7)) [0..<49]"
  let ?out = "replicate 49 (1::real)"
  have h: "(3::int) \<in> {1..5}" "(0::int) < 2" "length ?out = nat (7*7)" by simp_all
  obtain out' where k: "vector_kernel True 3 7 2 ?inp ?out = Some out'"
    and c: "\<forall>i j. 0 \<le> i \<and> i < 7 \<and> 0 \<le> j \<and> j < 7 \<longrightarrow>
               out' ! nat (i*7+j) =
                 (if 3 \<le> i \<and> i < 7 - 3 \<and> 3 \<le> j \<and> j < 7 - 3
                  then ?out ! nat (i*7+j) + apply_weights (weights True 3) 7 ?inp i j
                  else ?out ! nat (i*7+j))"
    using stencil_frame_and_accumulation [OF h, of True ?inp 0] by blast
  have w: "apply_weights (weights True 3) 7 ?inp 3 3 = 2.0000000000016"
    by (simp add: apply_weights_def weights_def star3_weights_def)
  have "out' ! 24 = 1 + 2.0000000000016" using c [rule_format, of 3 3] w by simp
  moreover have "out' ! 23 = 1" using c [rule_format, of 3 2] by simp
  moreover have "out' ! 0 = 1" using c [rule_format, of 0 0] by simp
  moreover have "star3 7 2 ?inp ?out = Some out'" using k by (simp add: vector_kernel_def)
  ultimately show ?thesis by simp
qed



text \<open>
  Claim C2, as amended. For every star radius \<open>r\<close> in 1..5 and every distance \<open>d\<close> in
  1..\<open>r\<close>, the coefficient of the neighbour at offset \<open>+d\<close> along a row or a column is
  \<open>1/(2dr)\<close> to a relative \<open>10\<^sup>-\<^sup>8\<close> and positive, and the coefficient of the neighbour at
  offset \<open>-d\<close> is its negation. (The magnitude \<open>1/(4dr)\<close> of the claim as stated is half of
  what the tables hold: \<open>star1\<close> has 0.5 where the claim has 0.25.)
\<close>

theorem star_coefficients:
  assumes "r \<in> {1..5}" "d \<in> {1..r}"
  shows "\<bar>coefficient (weights True r) 0 d - 1 / (2 * real_of_int d * real_of_int r)\<bar>
           \<le> 1 / 10 ^ 8 * (1 / (2 * real_of_int d * real_of_int r)) \<and>
         0 < coefficient (weights True r) 0 d \<and>
         coefficient (weights True r) d 0 = coefficient (weights True r) 0 d \<and>
         coefficient (weights True r) 0 (- d) = - coefficient (weights True r) 0 d \<and>
         coefficient (weights True r) (- d) 0 = - coefficient (weights True r) 0 d"
  using star_rule_all [OF assms] unfolding star_rule_def .

theorem star_coefficients_witness:
  "(3::int) \<in> {1..5} \<and> (2::int) \<in> {1..3} \<and>
   \<bar>coefficient (weights True 3) 0 2 - 1 / 12\<bar> \<le> 1 / 10 ^ 8 * (1 / 12) \<and>
   coefficient (weights True 3) 0 (- 2) = - coefficient (weights True 3) 0 2"
  using star_coefficients [of 3 2] by simp

theorem star_coefficient_quarter_counterexample:
  "\<not> \<bar>\<bar>coefficient (weights True 1) 0 1\<bar> - 1 / (4 * 1 * 1)\<bar> \<le> 1 / 10 ^ 8 * (1 / (4 * 1 * 1))"
  by (simp add: coefficient_def weights_def star1_weights_def)


section \<open>Properties of the stencil driver\<close>




text \<open>
  Claim C7. For every pair of shape and radius with no kernel in the driver's switch (the
  grid shape at any radius, the star shape at a radius outside 1..5) the function pointer
  is \<^verbatim>\<open>nothing\<close>; the call prints the three lines that begin "You are trying to use a
  stencil that does not exist." and aborts, and so does the program for every argument
  vector that passes the argument checks with that shape and radius.
\<close>

theorem missing_stencil_aborts:
  assumes "\<not> (star \<and> radius \<in> {1..5})"
  shows "select_stencil star radius = Fn_nothing \<and>
         call_stencil (select_stencil star radius) n t inp out =
           Inl (Abort [''You are trying to use a stencil that does not exist.'',
                       ''Please generate the new stencil using the code generator'',
                       ''and add it to the case-switch in the driver.'']) \<and>
         (\<forall>c. stencil_args m argv = Inr c \<and> cfg_star c = star \<and> cfg_radius c = radius \<longrightarrow>
            stencil_main m bt now junk argv =
              Fatal (Abort [''You are trying to use a stencil that does not exist.'',
                            ''Please generate the new stencil using the code generator'',
                            ''and add it to the case-switch in the driver.'']))"
proof -
  have sel: "select_stencil star radius = Fn_nothing"
    using assms by (rule select_stencil_nothing)
  have call: "call_stencil Fn_nothing n' t' inp' out' =
           Inl (Abort [''You are trying to use a stencil that does not exist.'',
                       ''Please generate the new stencil using the code generator'',
                       ''and add it to the case-switch in the driver.''])" for n' t' inp' out'
    by (simp add: call_stencil_def nothing_def)
  have main: "stencil_main m bt now junk argv =
              Fatal (Abort [''You are trying to use a stencil that does not exist.'',
                            ''Please generate the new stencil using the code generator'',
                            ''and add it to the case-switch in the driver.''])"
    if c: "stencil_args m argv = Inr c \<and> cfg_star c = star \<and> cfg_radius c = radius" for c
  proof -
    have "0 \<le> cfg_iterations c" using stencil_args_valid [of m argv c] c by simp
    then have "stencil_run Fn_nothing (cfg_n c) (cfg_tile_size c) bt now junk (cfg_iterations c) =
        Inl (Abort [''You are trying to use a stencil that does not exist.'',
                    ''Please generate the new stencil using the code generator'',
                    ''and add it to the case-switch in the driver.''])"
      unfolding stencil_run_def Let_def by (subst stencil_loop_fail [OF _ call]) simp_all
    then show ?thesis using c sel by (simp add: stencil_main_def)
  qed
  show ?thesis
  proof (intro conjI allI impI)
    show "select_stencil star radius = Fn_nothing" by (rule sel)
    show "call_stencil (select_stencil star radius) n t inp out =
           Inl (Abort [''You are trying to use a stencil that does not exist.'',
                       ''Please generate the new stencil using the code generator'',
                       ''and add it to the case-switch in the driver.''])"
      unfolding sel by (rule call)
  qed (rule main)
qed

theorem missing_stencil_aborts_witness:
  "\<not> (False \<and> (3::int) \<in> {1..5}) \<and>
   stencil_main 1000 (\<lambda>k. 1) 0 (\<lambda>k. 0) [''stencil'', ''5'', ''100'', ''32'', ''grid'', ''3''] =
     Fatal (Abort [''You are trying to use a stencil that does not exist.'',
                   ''Please generate the new stencil using the code generator'',
                   ''and add it to the case-switch in the driver.'']) \<and>
   exit_status (stencil_main 1000 (\<lambda>k. 1) 0 (\<lambda>k. 0)
     [''stencil'', ''5'', ''100'', ''32'', ''grid'', ''3'']) = None"
proof -
  have args: "stencil_args 1000 [''stencil'', ''5'', ''100'', ''32'', ''grid'', ''3'']
      = Inr \<lparr>cfg_iterations = 5, cfg_n = 100, cfg_tile_size = 32, cfg_star = False, cfg_radius = 3\<rparr>"
    by (simp add: stencil_args_def atoi_def is_space_def is_digit_def size_t_def)
  have h: "\<not> (False \<and> (3::int) \<in> {1..5})" by simp
  have "stencil_main 1000 (\<lambda>k. 1) 0 (\<lambda>k. 0) [''stencil'', ''5'', ''100'', ''32'', ''grid'', ''3''] =
     Fatal (Abort [''You are trying to use a stencil that does not exist.'',
                   ''Please generate the new stencil using the code generator'',
                   ''and add it to the case-switch in the driver.''])"
    using missing_stencil_aborts [OF h, of 0 0 "[]" "[]" 1000
        "[''stencil'', ''5'', ''100'', ''32'', ''grid'', ''3'']" "\<lambda>k. 1" 0 "\<lambda>k. 0"] args
    by simp
  then show ?thesis by simp
qed

text \<open>
  Claim C10. With a shape argument (\<^verbatim>\<open>argv[4]\<close>) other than exactly "grid", the
  argument handling gives the result it gives for "star": the same error, or the same
  configuration with the star stencil selected. With "grid" the star is not selected.
\<close>

theorem shape_other_than_grid_is_star:
  assumes "4 < length argv" "argv ! 4 \<noteq> ''grid''"
  shows "stencil_args m argv = stencil_args m (argv[4 := ''star'']) \<and>
         (\<forall>c. stencil_args m argv = Inr c \<longrightarrow> cfg_star c) \<and>
         (\<forall>c. stencil_args m (argv[4 := ''grid'']) = Inr c \<longrightarrow> \<not> cfg_star c)"
proof -
  have a: "stencil_args m argv = stencil_args m (argv[4 := ''star''])"
    using assms by (simp add: stencil_args_def Let_def)
  have b: "cfg_star c" if "stencil_args m argv = Inr c" for c
    using that assms unfolding stencil_args_def Let_def by (auto split: if_splits)
  have c: "\<not> cfg_star c" if "stencil_args m (argv[4 := ''grid'']) = Inr c" for c
    using that assms unfolding stencil_args_def Let_def by (auto split: if_splits)
  show ?thesis using a b c by blast
qed

theorem shape_other_than_grid_is_star_witness:
  "4 < length [''stencil'', ''10'', ''100'', ''32'', ''box'', ''2''] \<and>
   [''stencil'', ''10'', ''100'', ''32'', ''box'', ''2''] ! 4 \<noteq> ''grid'' \<and>
   stencil_args 1000 [''stencil'', ''10'', ''100'', ''32'', ''box'', ''2''] =
     Inr \<lparr>cfg_iterations = 10, cfg_n = 100, cfg_tile_size = 32, cfg_star = True, cfg_radius = 2\<rparr>"
proof -
  have h: "4 < length [''stencil'', ''10'', ''100'', ''32'', ''box'', ''2'']"
    "[''stencil'', ''10'', ''100'', ''32'', ''box'', ''2''] ! 4 \<noteq> ''grid''" by simp_all
  have "stencil_args 1000 [''stencil'', ''10'', ''100'', ''32'', ''box'', ''2''] =
        stencil_args 1000 ([''stencil'', ''10'', ''100'', ''32'', ''box'', ''2''][4 := ''star''])"
    using shape_other_than_grid_is_star [OF h, of 1000] by blast
  also have "\<dots> = Inr \<lparr>cfg_iterations = 10, cfg_n = 100, cfg_tile_size = 32, cfg_star = True, cfg_radius = 2\<rparr>"
    by (simp add: stencil_args_def atoi_def is_space_def is_digit_def size_t_def)
  finally show ?thesis by simp
qed


section \<open>Properties of the triad kernels\<close>

text \<open>
  Claim C4. For every \<open>n > 0\<close> and every scalar, one launch of the grid-strided kernel
  \<^verbatim>\<open>nstream2\<close> and one launch of the direct kernel \<^verbatim>\<open>nstream\<close> on the same \<open>A\<close>, \<open>B\<close>,
  \<open>C\<close> give the same \<open>A\<close>: the input with the triad update applied once at every index
  below \<open>n\<close>. The element type is arbitrary, so the results agree bit for bit whatever the
  arithmetic is. The launch of the direct kernel has at least one work-item per element
  (\<open>n \<le> g1 * l1\<close>); the launch of the strided kernel has any positive number of groups and
  items, with \<open>n\<close> plus the stride within the 32 bits of its index; the work-items of each
  launch run in any order (\<open>s1\<close>, \<open>s2\<close>). In particular the two launches of the driver, which
  uses one configuration for both kernels, agree for every vector length in the range of
  \<^verbatim>\<open>int\<close>.
\<close>

theorem grid_stride_equals_direct:
  assumes "0 < n"
    and "0 < l1" "n \<le> g1 * l1" "g1 * l1 \<le> 2 ^ 64"
    and "distinct s1" "set s1 = set (work_items g1 l1)"
    and "0 < l2" "0 < g2" "n + g2 * l2 \<le> 2 ^ 32"
    and "distinct s2" "set s2 = set (work_items g2 l2)"
  shows "run_items (\<lambda>item A. nstream2 n scalar A B C item) s2 A
           = run_items (\<lambda>item A. Some (nstream n scalar A B C item)) s1 A \<and>
         run_items (\<lambda>item A. Some (nstream n scalar A B C item)) s1 A
           = Some (triad_on {0..<n} scalar A B C) \<and>
         (\<forall>len sc d_A d_B d_C. 0 < len \<and> len < 2 ^ 31 \<longrightarrow>
            launch True len sc d_A d_B d_C = launch False len sc d_A d_B d_C)"
proof -
  have n0: "0 \<le> n" using assms(1) by simp
  have "launch True len sc d_A d_B d_C = launch False len sc d_A d_B d_C"
    if "0 < len \<and> len < 2 ^ 31" for len sc d_A d_B d_C
    using that by (simp add: launch_triad)
  then show ?thesis
    using run_direct [OF assms(2-6), where scalar = scalar and A = A and B = B and C = C]
      run_strided [OF assms(7-9) n0 assms(10,11), where scalar = scalar and A = A and B = B and C = C]
    by simp
qed

theorem grid_stride_equals_direct_witness:
  "(0::int) < 10 \<and> (0::int) < 4 \<and> (10::int) \<le> 3 * 4 \<and> (3::int) * 4 \<le> 2 ^ 64 \<and>
   distinct (work_items 3 4) \<and> set (work_items 3 4) = set (work_items 3 4) \<and>
   (0::int) < 2 \<and> (0::int) < 2 \<and> (10::int) + 2 * 2 \<le> 2 ^ 32 \<and>
   distinct (rev (work_items 2 2)) \<and> set (rev (work_items 2 2)) = set (work_items 2 2) \<and>
   run_items (\<lambda>item A. nstream2 10 (3::int) A [1,2,3,4,5,6,7,8,9,10] [1,1,1,1,1,1,1,1,1,1] item)
       (rev (work_items 2 2)) [0,0,0,0,0,0,0,0,0,0]
     = run_items (\<lambda>item A. Some (nstream 10 3 A [1,2,3,4,5,6,7,8,9,10] [1,1,1,1,1,1,1,1,1,1] item))
         (work_items 3 4) [0,0,0,0,0,0,0,0,0,0] \<and>
   run_items (\<lambda>item A. Some (nstream 10 (3::int) A [1,2,3,4,5,6,7,8,9,10] [1,1,1,1,1,1,1,1,1,1] item))
         (work_items 3 4) [0,0,0,0,0,0,0,0,0,0]
     = Some [4,5,6,7,8,9,10,11,12,13]"
proof -
  have d1: "distinct (work_items 3 4)" by (rule distinct_work_items) simp
  have d2: "distinct (rev (work_items 2 2))" using distinct_work_items [of 2 2] by simp
  have s2: "set (rev (work_items 2 2)) = set (work_items 2 2)" by simp
  have t: "triad_on {0..<10} (3::int) [0,0,0,0,0,0,0,0,0,0] [1,2,3,4,5,6,7,8,9,10] [1,1,1,1,1,1,1,1,1,1]
      = [4,5,6,7,8,9,10,11,12,13]"
    by (simp add: triad_on_def upt_rec)
  show ?thesis
    using grid_stride_equals_direct [of 10 4 3 "work_items 3 4" 2 2 "rev (work_items 2 2)"
        "3::int" "[1,2,3,4,5,6,7,8,9,10]" "[1,1,1,1,1,1,1,1,1,1]" "[0,0,0,0,0,0,0,0,0,0]", OF _ _ _ _ d1 refl _ _ _ d2 s2]
      d1 d2 t
    by simp
qed

text \<open>
  Claim C3. For every \<open>iterations \<ge> 1\<close> and \<open>length \<ge> 1\<close>, with the scalar 3 and \<open>B\<close>, \<open>C\<close>
  filled with 2: the expected checksum is \<open>length\<close> times the sum over \<open>k = 0..iterations\<close>
  of \<open>2 + 3*2\<close>; the observed value is the sum of the absolute values of the final \<open>A\<close>;
  the verifier ends with status 0 if and only if the observed value is not 0 and
  \<open>\<bar>expected - observed\<bar> / observed \<le> 10\<^sup>-\<^sup>8\<close> (an observed value of 0 makes the quotient of
  the source infinite, and the run fails); \<open>iterations = 10\<close>, \<open>length = 1000\<close> give 88000.
  The run of the driver itself (either kernel, \<open>length\<close> within the range of \<^verbatim>\<open>int\<close>)
  ends with every element of \<open>A\<close> equal to \<open>(iterations+1) * (2 + 3*2)\<close>, the observed
  checksum equal to the expected one, and status 0.
\<close>

theorem triad_checksum:
  assumes "1 \<le> iterations" "1 \<le> len"
  shows
   "expected_checksum iterations len = real_of_int len * (\<Sum>k\<in>{0..iterations}. 2 + 3 * 2) \<and>
    observed_checksum len h_A = (\<Sum>i\<in>{0..<len}. \<bar>h_A ! nat i\<bar>) \<and>
    (exit_status (nstream_verify iterations len h_A elapsed) = Some 0 \<longleftrightarrow>
       observed_checksum len h_A \<noteq> 0 \<and>
       \<bar>expected_checksum iterations len - observed_checksum len h_A\<bar> / observed_checksum len h_A
         \<le> 1 / 10 ^ 8) \<and>
    expected_checksum 10 1000 = 88000 \<and>
    (len < 2 ^ 31 \<longrightarrow>
       (\<exists>s. nstream_run grid_stride len bt now iterations = Inr s \<and>
            d_A s = replicate (nat len) (real_of_int (iterations + 1) * (2 + 3 * 2)) \<and>
            observed_checksum len (d_A s) = expected_checksum iterations len \<and>
            exit_status (nstream_verify iterations len (d_A s) (nstream_time s)) = Some 0))"
proof -
  have it: "0 \<le> iterations + 1" using assms(1) by simp
  have ev: "expected_checksum iterations len = 8 * real_of_int (iterations + 1) * real_of_int len"
    by (rule expected_checksum_value [OF it])
  have pos: "0 < expected_checksum iterations len" unfolding ev using assms by simp
  have ver: "exit_status (nstream_verify iterations len A elapsed') = Some 0 \<longleftrightarrow>
       observed_checksum len A \<noteq> 0 \<and>
       \<bar>expected_checksum iterations len - observed_checksum len A\<bar> / observed_checksum len A
         \<le> 1 / 10 ^ 8" for A elapsed'
    using pos unfolding nstream_verify_def Let_def relative_error_exceeds_def
    by (auto simp: not_less)
  have e10: "expected_checksum 10 1000 = 88000"
    using expected_checksum_value [of 10 1000] by simp
  have run: "\<exists>s. nstream_run grid_stride len bt now iterations = Inr s \<and>
            d_A s = replicate (nat len) (real_of_int (iterations + 1) * (2 + 3 * 2)) \<and>
            observed_checksum len (d_A s) = expected_checksum iterations len \<and>
            exit_status (nstream_verify iterations len (d_A s) (nstream_time s)) = Some 0"
    if l: "len < 2 ^ 31"
  proof -
    have l0: "0 < len" "0 \<le> len" using assms(2) by simp_all
    obtain s where r: "nstream_run grid_stride len bt now iterations = Inr s"
      and a: "d_A s = replicate (nat len) (8 * real_of_int (iterations + 1))"
      using nstream_run_ok [OF l0(1) l assms(1), of grid_stride bt now] by blast
    have o: "observed_checksum len (d_A s) = expected_checksum iterations len"
      unfolding a observed_checksum_replicate [OF l0(2)] ev using it by (simp add: abs_mult)
    have "exit_status (nstream_verify iterations len (d_A s) (nstream_time s)) = Some 0"
      unfolding ver o using pos by simp
    then show ?thesis using r a o by simp
  qed
  show ?thesis
    using expected_checksum_eq [of iterations len] observed_checksum_eq [of len h_A]
      ver [of h_A elapsed] e10 run
    by blast
qed

theorem triad_checksum_witness:
  "(1::int) \<le> 10 \<and> (1::int) \<le> 1000 \<and> expected_checksum 10 1000 = 1000 * (\<Sum>k\<in>{0..10::int}. 2 + 3 * 2) \<and>
   (\<exists>s. nstream_run False 1000 (\<lambda>k. 1) 0 10 = Inr s \<and> d_A s = replicate 1000 88 \<and>
        exit_status (nstream_verify 10 1000 (d_A s) (nstream_time s)) = Some 0)"
proof -
  have h: "(1::int) \<le> 10" "(1::int) \<le> 1000" by simp_all
  note t = triad_checksum [OF h, of "[]" 0 False "\<lambda>k. 1" 0]
  have "(1000::int) < 2 ^ 31" by simp
  with t obtain s where "nstream_run False 1000 (\<lambda>k. 1) 0 10 = Inr s"
    and "d_A s = replicate (nat 1000) (real_of_int (10 + 1) * (2 + 3 * 2))"
    and "exit_status (nstream_verify 10 1000 (d_A s) (nstream_time s)) = Some 0" by blast
  moreover have "expected_checksum 10 1000 = 1000 * (\<Sum>k\<in>{0..10::int}. 2 + 3 * 2)"
    using t by simp
  ultimately show ?thesis by auto
qed

text \<open>
  Claim C9 fails on the code: the source reads \<^verbatim>\<open>argv[4]\<close> where the third positional
  argument is \<^verbatim>\<open>argv[3]\<close>. With three positional arguments \<^verbatim>\<open>argc\<close> is 4 and
  \<^verbatim>\<open>argv[4]\<close> is the terminating null pointer, from which \<^verbatim>\<open>std::string\<close> is
  constructed; with four, it is the fourth that is parsed and the third is ignored.
\<close>

theorem grid_stride_argument_index:
  "nstream_args pb [''nstream'', ''10'', ''1000'', ''1''] = Inl (Inr Null_string) \<and>
   nstream_main pb bt now [''nstream'', ''10'', ''1000'', ''1''] = Fatal Null_string \<and>
   nstream_args pb [''nstream'', ''10'', ''1000'', ''0'', ''1''] =
     Inr \<lparr>arg_iterations = 10, arg_length = 1000, arg_grid_stride = pb ''1''\<rparr>"
  by (simp add: nstream_main_def nstream_args_def argv_at_def atoi_def is_space_def is_digit_def)


section \<open>The timed loops of both drivers\<close>

text \<open>
  Claim C6. For every run with \<open>iterations \<ge> 1\<close>: the loop of the stencil driver executes
  the bodies 0, 1, .. \<open>iterations\<close>, that is \<open>iterations + 1\<close> of them; each body, the
  warm-up body 0 included, is one kernel call followed by one perturbation (which adds 1
  to every element of the input grid, so the grid ends \<open>iterations + 1\<close> above its initial
  value); the clock is read at the start of body 1 and after the last body, so the elapsed
  time is the time of the bodies 1 .. \<open>iterations\<close>, and the average time reported is that
  divided by \<open>iterations\<close>. The loop of the triad driver has the same shape with one kernel
  launch per body. The runs return (for the star kernels with a tile size \<open>t > 0\<close>, and for
  a vector length within the range of \<^verbatim>\<open>int\<close>).
\<close>

theorem timed_loop_bodies:
  assumes "1 \<le> iterations"
  shows
   "(\<forall>s. stencil_run stencil n t bt now junk iterations = Inr s \<longrightarrow>
        events s = [Kernel_call 0, Perturbation 0, Timer_start 1]
                   @ concat (map (\<lambda>k. [Kernel_call k, Perturbation k]) [1..iterations])
                   @ [Timer_stop] \<and>
        length (filter is_kernel_call (events s)) = nat (iterations + 1) \<and>
        length (filter is_perturbation (events s)) = nat (iterations + 1) \<and>
        stencil_time s = (\<Sum>k\<in>{1..iterations}. bt k)) \<and>
    (\<forall>r. r \<in> {1..5} \<and> 0 < t \<and> 0 \<le> n \<longrightarrow>
        (\<exists>s. stencil_run (select_stencil True r) n t bt now junk iterations = Inr s \<and>
             d_in s = field n (\<lambda>i j. real_of_int (i + j) + real_of_int (iterations + 1)))) \<and>
    (\<forall>a. stencil_main m bt now junk argv = Validated a \<longrightarrow>
        (\<exists>c. stencil_args m argv = Inr c \<and>
             a = (\<Sum>k\<in>{1..cfg_iterations c}. bt k) / real_of_int (cfg_iterations c))) \<and>
    (\<forall>s. nstream_run grid_stride len bt now iterations = Inr s \<longrightarrow>
        triad_events s = [Kernel_call 0, Timer_start 1] @ map Kernel_call [1..iterations]
                         @ [Timer_stop] \<and>
        length (filter is_kernel_call (triad_events s)) = nat (iterations + 1) \<and>
        nstream_time s = (\<Sum>k\<in>{1..iterations}. bt k)) \<and>
    (0 < len \<and> len < 2 ^ 31 \<longrightarrow>
        (\<exists>s. nstream_run grid_stride len bt now iterations = Inr s)) \<and>
    (\<forall>a. nstream_main pb bt now argv' = Validated a \<longrightarrow>
        (\<exists>c. nstream_args pb argv' = Inr c \<and>
             a = (\<Sum>k\<in>{1..arg_iterations c}. bt k) / real_of_int (arg_iterations c)))"
proof (intro conjI allI impI)
  fix s :: device assume run: "stencil_run stencil n t bt now junk iterations = Inr s"
  note log = stencil_run_log [OF run assms]
  show "events s = [Kernel_call 0, Perturbation 0, Timer_start 1]
                   @ concat (map (\<lambda>k. [Kernel_call k, Perturbation k]) [1..iterations])
                   @ [Timer_stop]"
    using log by (simp add: loop_log_explicit [OF assms])
  show "length (filter is_kernel_call (events s)) = nat (iterations + 1)"
    using log loop_log_counts [of 0 iterations] by (simp add: is_kernel_call_def)
  show "length (filter is_perturbation (events s)) = nat (iterations + 1)"
    using log loop_log_counts [of 0 iterations] by (simp add: is_perturbation_def)
  show "stencil_time s = (\<Sum>k\<in>{1..iterations}. bt k)" using log by simp
next
  fix r :: int assume "r \<in> {1..5} \<and> 0 < t \<and> 0 \<le> n"
  then show "\<exists>s. stencil_run (select_stencil True r) n t bt now junk iterations = Inr s \<and>
             d_in s = field n (\<lambda>i j. real_of_int (i + j) + real_of_int (iterations + 1))"
    using stencil_run_star [of r t n iterations bt now junk] assms by blast
next
  fix a :: real assume "stencil_main m bt now junk argv = Validated a"
  then show "\<exists>c. stencil_args m argv = Inr c \<and>
             a = (\<Sum>k\<in>{1..cfg_iterations c}. bt k) / real_of_int (cfg_iterations c)"
    by (rule stencil_main_validated)
next
  fix s :: triad_device assume run: "nstream_run grid_stride len bt now iterations = Inr s"
  note log = nstream_run_log [OF run assms]
  show "triad_events s = [Kernel_call 0, Timer_start 1] @ map Kernel_call [1..iterations]
                         @ [Timer_stop]"
    using log by (simp add: triad_log_explicit [OF assms])
  show "length (filter is_kernel_call (triad_events s)) = nat (iterations + 1)"
    using log triad_log_counts [of 0 iterations] by (simp add: is_kernel_call_def)
  show "nstream_time s = (\<Sum>k\<in>{1..iterations}. bt k)" using log by simp
next
  assume "0 < len \<and> len < 2 ^ 31"
  then show "\<exists>s. nstream_run grid_stride len bt now iterations = Inr s"
    using nstream_run_ok [of len iterations grid_stride bt now] assms by blast
next
  fix a :: real assume "nstream_main pb bt now argv' = Validated a"
  then show "\<exists>c. nstream_args pb argv' = Inr c \<and>
             a = (\<Sum>k\<in>{1..arg_iterations c}. bt k) / real_of_int (arg_iterations c)"
    by (rule nstream_main_validated)
qed

theorem timed_loop_bodies_witness:
  "(1::int) \<le> 2 \<and>
   (\<exists>s. stencil_run (select_stencil True 1) 3 1 (\<lambda>k. real_of_int (k + 1)) 0 (\<lambda>k. 0) 2 = Inr s \<and>
        events s = [Kernel_call 0, Perturbation 0, Timer_start 1, Kernel_call 1, Perturbation 1,
                    Kernel_call 2, Perturbation 2, Timer_stop] \<and>
        stencil_time s = 5)"
proof -
  have h: "(1::int) \<le> 2" by simp
  note t = timed_loop_bodies [OF h, of "select_stencil True 1" 3 1 "\<lambda>k. real_of_int (k + 1)" 0 "\<lambda>k. 0"]
  have "\<exists>s. stencil_run (select_stencil True 1) 3 1 (\<lambda>k. real_of_int (k + 1)) 0 (\<lambda>k. 0) 2 = Inr s \<and>
        d_in s = field 3 (\<lambda>i j. real_of_int (i + j) + real_of_int (2 + 1))"
    by (rule t [THEN conjunct2, THEN conjunct1, rule_format]) simp
  then obtain s where
    run: "stencil_run (select_stencil True 1) 3 1 (\<lambda>k. real_of_int (k + 1)) 0 (\<lambda>k. 0) 2 = Inr s"
    by blast
  note a = t [THEN conjunct1, rule_format, OF run]
  have "events s = [Kernel_call 0, Perturbation 0, Timer_start 1]
                   @ concat (map (\<lambda>k. [Kernel_call k, Perturbation k]) [1..2]) @ [Timer_stop]"
    and "stencil_time s = (\<Sum>k\<in>{1..2}. real_of_int (k + 1))" using a by simp_all
  moreover have "[1..2::int] = [1, 2]" by (simp add: upto_rec1)
  moreover have "{1..2::int} = {1, 2}" by auto
  ultimately show ?thesis using run by auto
qed

end
